theory Spec2Isabelle
  imports Main "HOL-Library.AList"
begin

section \<open>JavaScript values and containers\<close>

text \<open>
  The store keeps values of type \<^verbatim>\<open>any\<close>.  A value is \<^verbatim>\<open>undefined\<close>, \<^verbatim>\<open>null\<close>, a
  boolean, a number (integers only: timestamps and counters), a string, or an object,
  given by its own enumerable properties in the order \<^verbatim>\<open>Object.entries\<close> lists them.
  An array is the object whose property names are its indices.
\<close>

datatype jsval =
    Undefined
  | Null
  | Bool bool
  | Num int
  | Str string
  | Obj "(string \<times> jsval) list"

text \<open>
  A \<^verbatim>\<open>Map<string, V>\<close> is an association list in insertion order: \<^verbatim>\<open>set\<close> of a
  present key replaces the value in place, \<^verbatim>\<open>set\<close> of a new key appends,
  \<^verbatim>\<open>delete\<close> drops the entry, \<^verbatim>\<open>keys()\<close> iterates in insertion order.
\<close>

definition Map_has :: "(string \<times> 'v) list \<Rightarrow> string \<Rightarrow> bool" where
  "Map_has m k = (map_of m k \<noteq> None)"

definition Map_get :: "(string \<times> 'v) list \<Rightarrow> string \<Rightarrow> 'v option" where
  "Map_get m k = map_of m k"

definition Map_set :: "string \<Rightarrow> 'v \<Rightarrow> (string \<times> 'v) list \<Rightarrow> (string \<times> 'v) list" where
  "Map_set k v m = AList.update k v m"

definition Map_delete :: "string \<Rightarrow> (string \<times> 'v) list \<Rightarrow> (string \<times> 'v) list" where
  "Map_delete k m = AList.delete k m"

definition Map_keys :: "(string \<times> 'v) list \<Rightarrow> string list" where
  "Map_keys m = map fst m"

text \<open>
  A \<^verbatim>\<open>Set<F>\<close> of function objects is the list of its members in insertion order;
  a function object is named by its identity (a number, or a constructor that says what
  kind of closure it is).  \<^verbatim>\<open>add\<close> of a member is a no-op, \<^verbatim>\<open>forEach\<close> visits the
  members in insertion order.
\<close>

definition Set_add :: "'a \<Rightarrow> 'a list \<Rightarrow> 'a list" where
  "Set_add c xs = (if c \<in> set xs then xs else xs @ [c])"

definition Set_delete :: "'a \<Rightarrow> 'a list \<Rightarrow> 'a list" where
  "Set_delete c xs = removeAll c xs"

section \<open>What the program lets the outside see\<close>

text \<open>
  Every call of a user callback and every line written to the console is appended to a
  log, so that the order of the effects of one call can be stated.  The constructors of
  \<open>logged\<close> name the places of the source that write to the console:

  \<^item> \<open>ErrSubscriber key\<close>: \<^verbatim>\<open>Error in subscriber for key "<key>":\<close>
  \<^item> \<open>ErrGlobalSubscriber\<close>: \<^verbatim>\<open>Error in global subscriber:\<close>
  \<^item> \<open>ErrInitialCallback key\<close>: \<^verbatim>\<open>Error in initial callback for key "<key>":\<close>
  \<^item> \<open>ErrInitialGlobalCallback\<close>: \<^verbatim>\<open>Error in initial global callback:\<close>
  \<^item> \<open>ErrDataCallback\<close>: \<^verbatim>\<open>Error in data callback:\<close>
  \<^item> \<open>ErrHandlingAdapterData\<close>: \<^verbatim>\<open>Error handling adapter data:\<close>
  \<^item> \<open>ErrAdapterDataCallback name\<close>: \<^verbatim>\<open>Error in data callback for adapter "<name>":\<close>
  \<^item> \<open>AddedAdapter name\<close>: \<^verbatim>\<open>Added adapter: <name>\<close>
  \<^item> \<open>ConnectedAdapter name\<close>: \<^verbatim>\<open>Connected adapter: <name>\<close>
  \<^item> \<open>FailedToConnect name\<close>: \<^verbatim>\<open>Failed to connect adapter "<name>":\<close>
  \<^item> \<open>DisconnectedAdapter name\<close>: \<^verbatim>\<open>Disconnected adapter: <name>\<close>
  \<^item> \<open>FailedToDisconnect name\<close>: \<^verbatim>\<open>Failed to disconnect adapter "<name>":\<close>

  The events are: a per-key subscriber called with a value, a global subscriber called
  with a key and a value, a data callback of the routing layer and a listener of an
  adapter called with an envelope, a line of \<^verbatim>\<open>console.error\<close> and of
  \<^verbatim>\<open>console.log\<close>, and the routing layer calling \<^verbatim>\<open>connect()\<close> or
  \<^verbatim>\<open>disconnect()\<close> of an adapter object.
\<close>

datatype logged =
    ErrSubscriber string
  | ErrGlobalSubscriber
  | ErrInitialCallback string
  | ErrInitialGlobalCallback
  | ErrDataCallback
  | ErrHandlingAdapterData
  | ErrAdapterDataCallback string
  | AddedAdapter string
  | ConnectedAdapter string
  | FailedToConnect string
  | DisconnectedAdapter string
  | FailedToDisconnect string

datatype event =
    KeyCall nat jsval
  | GlobalCall nat string jsval
  | DataCall nat jsval
  | ListenerCall nat jsval
  | ConsoleError logged
  | ConsoleLog logged
  | ConnectCalled nat
  | DisconnectCalled nat

text \<open>
  A callback is code of the caller.  It returns or it throws, and which of the two may
  depend on its arguments and on everything that happened before (the log so far).
  Callbacks that call back into the store while they are being notified are outside this
  model.
\<close>

record Behaviour =
  key_throws :: "event list \<Rightarrow> nat \<Rightarrow> jsval \<Rightarrow> bool"
  global_throws :: "event list \<Rightarrow> nat \<Rightarrow> string \<Rightarrow> jsval \<Rightarrow> bool"
  data_throws :: "event list \<Rightarrow> nat \<Rightarrow> jsval \<Rightarrow> bool"
  listener_throws :: "event list \<Rightarrow> nat \<Rightarrow> jsval \<Rightarrow> bool"

section \<open>The observable store (class DataState)\<close>

text \<open>
  \<open>subscribers\<close> maps a key to a \<^verbatim>\<open>Set\<close> object.  The cancellation closure that
  \<^verbatim>\<open>subscribe\<close> returns keeps the \<^verbatim>\<open>Set\<close> object it was created with, not the key's
  current one, so the objects live in a heap \<open>sets\<close> addressed by reference, and
  \<open>next_ref\<close> is the next unused reference.
\<close>

record DataState =
  data :: "(string \<times> jsval) list"
  subscribers :: "(string \<times> nat) list"
  sets :: "nat \<Rightarrow> nat list"
  next_ref :: nat
  globalSubscribers :: "nat list"
  observed :: "event list"

definition DataState_new :: DataState where
  "DataState_new = \<lparr> data = [], subscribers = [], sets = (\<lambda>_. []), next_ref = 0,
     globalSubscribers = [], observed = [] \<rparr>"

text \<open>\<^verbatim>\<open>get(key)\<close>: \<^verbatim>\<open>Map.get\<close> answers \<^verbatim>\<open>undefined\<close> for a key it does not hold.\<close>

definition DataState_get :: "DataState \<Rightarrow> string \<Rightarrow> jsval" where
  "DataState_get s key = (case Map_get (data s) key of None \<Rightarrow> Undefined | Some v \<Rightarrow> v)"

text \<open>
  \<^verbatim>\<open>keySubscribers.forEach(callback => { try { callback(value) } catch ... })\<close>, on the
  log \<open>tr\<close>.
\<close>

fun notify_key :: "Behaviour \<Rightarrow> string \<Rightarrow> jsval \<Rightarrow> nat list \<Rightarrow> event list \<Rightarrow> event list" where
  "notify_key B key v [] tr = tr"
| "notify_key B key v (c # cs) tr =
     notify_key B key v cs
       (if key_throws B tr c v
        then tr @ [KeyCall c v, ConsoleError (ErrSubscriber key)]
        else tr @ [KeyCall c v])"

text \<open>
  \<^verbatim>\<open>this.globalSubscribers.forEach(callback => { try { callback(key, value) } catch ... })\<close>.
\<close>

fun notify_global :: "Behaviour \<Rightarrow> string \<Rightarrow> jsval \<Rightarrow> nat list \<Rightarrow> event list \<Rightarrow> event list" where
  "notify_global B key v [] tr = tr"
| "notify_global B key v (g # gs) tr =
     notify_global B key v gs
       (if global_throws B tr g key v
        then tr @ [GlobalCall g key v, ConsoleError ErrGlobalSubscriber]
        else tr @ [GlobalCall g key v])"

definition DataState_set :: "Behaviour \<Rightarrow> string \<Rightarrow> jsval \<Rightarrow> DataState \<Rightarrow> DataState" where
  "DataState_set B key v s =
     (let s1 = s\<lparr> data := Map_set key v (data s) \<rparr>;
          tr1 = (case Map_get (subscribers s1) key of
                   None \<Rightarrow> observed s1
                 | Some keySubscribers \<Rightarrow> notify_key B key v (sets s1 keySubscribers) (observed s1))
      in s1\<lparr> observed := notify_global B key v (globalSubscribers s1) tr1 \<rparr>)"

definition DataState_delete :: "Behaviour \<Rightarrow> string \<Rightarrow> DataState \<Rightarrow> DataState" where
  "DataState_delete B key s =
     (let s1 = s\<lparr> data := Map_delete key (data s) \<rparr>;
          s2 = s1\<lparr> subscribers := Map_delete key (subscribers s1) \<rparr>
      in s2\<lparr> observed := notify_global B key Undefined (globalSubscribers s2) (observed s2) \<rparr>)"

text \<open>\<^verbatim>\<open>keys.forEach(key => this.globalSubscribers.forEach(...))\<close> of \<^verbatim>\<open>clear\<close>.\<close>

fun notify_cleared :: "Behaviour \<Rightarrow> string list \<Rightarrow> nat list \<Rightarrow> event list \<Rightarrow> event list" where
  "notify_cleared B [] gs tr = tr"
| "notify_cleared B (key # ks) gs tr = notify_cleared B ks gs (notify_global B key Undefined gs tr)"

definition DataState_clear :: "Behaviour \<Rightarrow> DataState \<Rightarrow> DataState" where
  "DataState_clear B s =
     (let keys = Map_keys (data s);
          s1 = s\<lparr> data := [], subscribers := [] \<rparr>
      in s1\<lparr> observed := notify_cleared B keys (globalSubscribers s1) (observed s1) \<rparr>)"

definition DataState_keys :: "DataState \<Rightarrow> string list" where
  "DataState_keys s = Map_keys (data s)"

text \<open>
  The closure returned by \<^verbatim>\<open>subscribe\<close> captures \<^verbatim>\<open>key\<close>, \<^verbatim>\<open>callback\<close> and the
  \<^verbatim>\<open>Set\<close> object \<^verbatim>\<open>keySubscribers\<close>.  In \<^verbatim>\<open>subscribe\<close> the source reads
  \<^verbatim>\<open>this.subscribers.get(key)!\<close> after it has made sure that the key has an entry, so
  the case \<open>None\<close> of that lookup is never taken.  The replay tests
  \<^verbatim>\<open>currentValue !== undefined\<close>.
\<close>

record Cancel =
  c_key :: string
  c_keySubscribers :: nat
  c_callback :: nat

definition DataState_subscribe ::
  "Behaviour \<Rightarrow> string \<Rightarrow> nat \<Rightarrow> DataState \<Rightarrow> Cancel \<times> DataState" where
  "DataState_subscribe B key callback s =
     (let s1 = (if \<not> Map_has (subscribers s) key
                then s\<lparr> subscribers := Map_set key (next_ref s) (subscribers s),
                        sets := (sets s)(next_ref s := []),
                        next_ref := Suc (next_ref s) \<rparr>
                else s);
          keySubscribers = (case Map_get (subscribers s1) key of
                              Some r \<Rightarrow> r | None \<Rightarrow> next_ref s);
          s2 = s1\<lparr> sets := (sets s1)(keySubscribers := Set_add callback (sets s1 keySubscribers)) \<rparr>;
          currentValue = DataState_get s2 key;
          s3 = (if currentValue \<noteq> Undefined
                then s2\<lparr> observed :=
                       (if key_throws B (observed s2) callback currentValue
                        then observed s2 @ [KeyCall callback currentValue,
                                            ConsoleError (ErrInitialCallback key)]
                        else observed s2 @ [KeyCall callback currentValue]) \<rparr>
                else s2)
      in (\<lparr> c_key = key, c_keySubscribers = keySubscribers, c_callback = callback \<rparr>, s3))"

text \<open>Calling the closure that \<^verbatim>\<open>subscribe\<close> returned.\<close>

definition cancel :: "Cancel \<Rightarrow> DataState \<Rightarrow> DataState" where
  "cancel h s =
     (let s1 = s\<lparr> sets := (sets s)(c_keySubscribers h :=
                              Set_delete (c_callback h) (sets s (c_keySubscribers h))) \<rparr>
      in if length (sets s1 (c_keySubscribers h)) = 0
         then s1\<lparr> subscribers := Map_delete (c_key h) (subscribers s1) \<rparr>
         else s1)"

text \<open>\<^verbatim>\<open>this.data.forEach((value, key) => { try { callback(key, value) } catch ... })\<close>.\<close>

fun replay_all :: "Behaviour \<Rightarrow> nat \<Rightarrow> (string \<times> jsval) list \<Rightarrow> event list \<Rightarrow> event list" where
  "replay_all B g [] tr = tr"
| "replay_all B g ((key, v) # kvs) tr =
     replay_all B g kvs
       (if global_throws B tr g key v
        then tr @ [GlobalCall g key v, ConsoleError ErrInitialGlobalCallback]
        else tr @ [GlobalCall g key v])"

definition DataState_subscribeAll :: "Behaviour \<Rightarrow> nat \<Rightarrow> DataState \<Rightarrow> DataState" where
  "DataState_subscribeAll B callback s =
     (let s1 = s\<lparr> globalSubscribers := Set_add callback (globalSubscribers s) \<rparr>
      in s1\<lparr> observed := replay_all B callback (data s1) (observed s1) \<rparr>)"

text \<open>Calling the closure that \<^verbatim>\<open>subscribeAll\<close> returned for \<open>callback\<close>.\<close>

definition cancelAll :: "nat \<Rightarrow> DataState \<Rightarrow> DataState" where
  "cancelAll callback s = s\<lparr> globalSubscribers := Set_delete callback (globalSubscribers s) \<rparr>"

section \<open>The routing layer (class DataAdapterLayer)\<close>

text \<open>
  The envelope \<^verbatim>\<open>DataItem\<close> of \<^verbatim>\<open>types.ts\<close>; \<^verbatim>\<open>source\<close> is optional.  As a stored
  value it is the object with the properties in the order in which
  \<^verbatim>\<open>BaseAdapter.createDataItem\<close> writes them.
\<close>

record DataItem =
  item_id :: string
  item_timestamp :: int
  item_data :: jsval
  item_source :: "string option"

definition DataItem_val :: "DataItem \<Rightarrow> jsval" where
  "DataItem_val d = Obj ([(''id'', Str (item_id d)), (''timestamp'', Num (item_timestamp d)),
       (''data'', item_data d)]
     @ (case item_source d of None \<Rightarrow> [] | Some src \<Rightarrow> [(''source'', Str src)]))"

text \<open>\<^verbatim>\<open>CheckoutResult\<close> and the values that are thrown.\<close>

record CheckoutResult =
  res_key :: string
  res_data :: jsval

datatype error =
    AdapterAlreadyExists string
  | AdapterNotFound string
  | Thrown jsval

text \<open>
  A \<^verbatim>\<open>CheckoutFunction\<close> is code of the caller: applied to a payload it throws
  (\<open>Inl\<close>) or returns a \<^verbatim>\<open>CheckoutResult\<close> (\<open>Inr\<close>).
\<close>

type_synonym CheckoutFunction = "jsval \<Rightarrow> error + CheckoutResult"

text \<open>
  \<^verbatim>\<open>x || d\<close> for an optional string \<open>x\<close>: \<^verbatim>\<open>undefined\<close> and the empty string are
  falsy.
\<close>

definition or_else :: "string option \<Rightarrow> string \<Rightarrow> string" where
  "or_else x d = (case x of None \<Rightarrow> d | Some y \<Rightarrow> if y = [] then d else y)"

text \<open>Truthiness of a value, as \<^verbatim>\<open>if\<close> and \<^verbatim>\<open>&&\<close> test it.\<close>

fun truthy :: "jsval \<Rightarrow> bool" where
  "truthy Undefined = False"
| "truthy Null = False"
| "truthy (Bool b) = b"
| "truthy (Num n) = (n \<noteq> 0)"
| "truthy (Str s) = (s \<noteq> [])"
| "truthy (Obj ps) = True"

text \<open>
  \<^verbatim>\<open>x.stateUpdates\<close> for a truthy \<open>x\<close>: the property of an object, and
  \<^verbatim>\<open>undefined\<close> for a boolean, a number or a string.  The source reads it behind
  \<^verbatim>\<open>x &&\<close> only, so the equations for \<^verbatim>\<open>undefined\<close> and \<^verbatim>\<open>null\<close> are never used.
\<close>

fun get_stateUpdates :: "jsval \<Rightarrow> jsval" where
  "get_stateUpdates (Obj ps) = (case map_of ps ''stateUpdates'' of None \<Rightarrow> Undefined | Some v \<Rightarrow> v)"
| "get_stateUpdates v = Undefined"

text \<open>Decimal digits of an index, for the property names of a string.\<close>

fun decimal :: "nat \<Rightarrow> string" where
  "decimal n = (if n < 10 then [char_of (48 + n)]
                else decimal (n div 10) @ [char_of (48 + n mod 10)])"

text \<open>
  \<^verbatim>\<open>Object.entries(x)\<close> for a truthy \<open>x\<close>: the properties of an object, the
  characters of a string under their indices, nothing for a boolean or a number.
\<close>

fun Object_entries :: "jsval \<Rightarrow> (string \<times> jsval) list" where
  "Object_entries (Obj ps) = ps"
| "Object_entries (Str s) = map (\<lambda>i. (decimal i, Str [s ! i])) [0..<length s]"
| "Object_entries v = []"

record DataAdapterLayer =
  adapters :: "(string \<times> nat) list"
  dataState :: DataState
  enableLogging :: bool
  checkoutFunctions :: "(string \<times> CheckoutFunction) list"
  dataCallbacks :: "nat list"

text \<open>
  The constructor; \<^verbatim>\<open>enableLogging\<close> is \<^verbatim>\<open>true\<close> unless the options say otherwise
  (\<^verbatim>\<open>maxRetries\<close> and \<^verbatim>\<open>retryDelay\<close> are never read).
\<close>

definition DataAdapterLayer_new :: "bool \<Rightarrow> DataAdapterLayer" where
  "DataAdapterLayer_new logging = \<lparr> adapters = [], dataState = DataState_new,
     enableLogging = logging, checkoutFunctions = [], dataCallbacks = [] \<rparr>"

text \<open>The program has one log; it is kept with the store.\<close>

definition console :: "event list \<Rightarrow> DataAdapterLayer \<Rightarrow> DataAdapterLayer" where
  "console es L = L\<lparr> dataState := (dataState L)\<lparr> observed := observed (dataState L) @ es \<rparr> \<rparr>"

definition setCheckoutFunction :: "string \<Rightarrow> CheckoutFunction \<Rightarrow> DataAdapterLayer \<Rightarrow> DataAdapterLayer" where
  "setCheckoutFunction adapterName checkoutFn L =
     L\<lparr> checkoutFunctions := Map_set adapterName checkoutFn (checkoutFunctions L) \<rparr>"

definition removeCheckoutFunction :: "string \<Rightarrow> DataAdapterLayer \<Rightarrow> DataAdapterLayer" where
  "removeCheckoutFunction adapterName L =
     L\<lparr> checkoutFunctions := Map_delete adapterName (checkoutFunctions L) \<rparr>"

definition DataAdapterLayer_onData :: "nat \<Rightarrow> DataAdapterLayer \<Rightarrow> DataAdapterLayer" where
  "DataAdapterLayer_onData callback L = L\<lparr> dataCallbacks := Set_add callback (dataCallbacks L) \<rparr>"

definition generateStateKey :: "DataItem \<Rightarrow> string" where
  "generateStateKey d = or_else (item_source d) ''unknown'' @ ''_'' @ item_id d"

text \<open>
  The first step of \<^verbatim>\<open>handleAdapterData\<close>: look the checkout function of the source up
  and apply it.  The result is the thrown value, or \<^verbatim>\<open>processedData\<close> and
  \<^verbatim>\<open>stateKey\<close>.
\<close>

definition checkout :: "DataAdapterLayer \<Rightarrow> DataItem \<Rightarrow> error + (DataItem \<times> string)" where
  "checkout L d =
     (let checkoutFn = Map_get (checkoutFunctions L) (or_else (item_source d) []);
          processedData = d;
          stateKey = generateStateKey d
      in case checkoutFn of
           None \<Rightarrow> Inr (processedData, stateKey)
         | Some f \<Rightarrow>
             (case f (item_data d) of
                Inl e \<Rightarrow> Inl e
              | Inr result \<Rightarrow> Inr (d\<lparr> item_data := res_data result \<rparr>, res_key result)))"

text \<open>
  The pairs that the second step writes:
  \<^verbatim>\<open>if (processedData.data && processedData.data.stateUpdates) Object.entries(...)\<close>.
\<close>

definition stateUpdates_entries :: "DataItem \<Rightarrow> (string \<times> jsval) list" where
  "stateUpdates_entries processedData =
     (if truthy (item_data processedData) \<and> truthy (get_stateUpdates (item_data processedData))
      then Object_entries (get_stateUpdates (item_data processedData))
      else [])"

text \<open>\<^verbatim>\<open>this.dataCallbacks.forEach(callback => { try { callback(processedData) } ... })\<close>.\<close>

fun notify_data :: "Behaviour \<Rightarrow> jsval \<Rightarrow> nat list \<Rightarrow> event list \<Rightarrow> event list" where
  "notify_data B v [] tr = tr"
| "notify_data B v (c # cs) tr =
     notify_data B v cs
       (if data_throws B tr c v
        then tr @ [DataCall c v, ConsoleError ErrDataCallback]
        else tr @ [DataCall c v])"

text \<open>
  The body of the \<^verbatim>\<open>try\<close> block of \<^verbatim>\<open>handleAdapterData\<close>: the thrown value, if any,
  and the layer as it is when the block is left.
\<close>

definition handle_try :: "Behaviour \<Rightarrow> DataItem \<Rightarrow> DataAdapterLayer \<Rightarrow> error option \<times> DataAdapterLayer" where
  "handle_try B d L =
     (case checkout L d of
        Inl e \<Rightarrow> (Some e, L)
      | Inr (processedData, stateKey) \<Rightarrow>
          (let L1 = L\<lparr> dataState := fold (\<lambda>(key, v). DataState_set B key v)
                                        (stateUpdates_entries processedData) (dataState L) \<rparr>;
               L2 = L1\<lparr> dataState := DataState_set B stateKey (DataItem_val processedData)
                                        (dataState L1) \<rparr>;
               L3 = L2\<lparr> dataState := (dataState L2)\<lparr> observed :=
                       notify_data B (DataItem_val processedData) (dataCallbacks L2)
                         (observed (dataState L2)) \<rparr> \<rparr>
           in (None, L3)))"

text \<open>
  \<^verbatim>\<open>handleAdapterData\<close>: the \<^verbatim>\<open>try\<close> block and its \<^verbatim>\<open>catch\<close>.  Like every call it
  gives the thrown value, if any, and the state after it.
\<close>

definition handleAdapterData :: "Behaviour \<Rightarrow> DataItem \<Rightarrow> DataAdapterLayer \<Rightarrow> error option \<times> DataAdapterLayer" where
  "handleAdapterData B d L =
     (case handle_try B d L of
        (None, L') \<Rightarrow> (None, L')
      | (Some e, L') \<Rightarrow> (None, console [ConsoleError ErrHandlingAdapterData] L'))"

section \<open>Adapter objects and their registration\<close>

text \<open>
  The part of \<^verbatim>\<open>BaseAdapter\<close> that the routing layer uses: the name and the set of
  data callbacks.  A member of the set is a closure
  \<^verbatim>\<open>(data) => { this.handleAdapterData(data) }\<close> made by some call of \<^verbatim>\<open>addAdapter\<close>
  (each call makes a new closure), or a listener of somebody else.
\<close>

datatype listener = LayerHandler nat | UserListener nat

record BaseAdapter =
  a_name :: string
  a_dataCallbacks :: "listener list"

definition BaseAdapter_onData :: "listener \<Rightarrow> BaseAdapter \<Rightarrow> BaseAdapter" where
  "BaseAdapter_onData callback a = a\<lparr> a_dataCallbacks := Set_add callback (a_dataCallbacks a) \<rparr>"

definition BaseAdapter_offData :: "listener \<Rightarrow> BaseAdapter \<Rightarrow> BaseAdapter" where
  "BaseAdapter_offData callback a = a\<lparr> a_dataCallbacks := Set_delete callback (a_dataCallbacks a) \<rparr>"

text \<open>
  The routing layer together with the adapter objects, which live in a heap \<open>objs\<close>;
  \<open>next_closure\<close> numbers the closures that \<^verbatim>\<open>addAdapter\<close> makes.
\<close>

record System =
  layer :: DataAdapterLayer
  objs :: "nat \<Rightarrow> BaseAdapter"
  next_closure :: nat

definition addAdapter :: "nat \<Rightarrow> System \<Rightarrow> error option \<times> System" where
  "addAdapter adapter S =
     (let name = a_name (objs S adapter) in
      if Map_has (adapters (layer S)) name
      then (Some (AdapterAlreadyExists name), S)
      else
        (let S1 = S\<lparr> layer := (layer S)\<lparr> adapters := Map_set name adapter (adapters (layer S)) \<rparr> \<rparr>;
             S2 = S1\<lparr> objs := (objs S1)(adapter :=
                          BaseAdapter_onData (LayerHandler (next_closure S1)) (objs S1 adapter)),
                       next_closure := Suc (next_closure S1) \<rparr>;
             S3 = (if enableLogging (layer S2)
                   then S2\<lparr> layer := console [ConsoleLog (AddedAdapter name)] (layer S2) \<rparr>
                   else S2)
         in (None, S3)))"

text \<open>
  \<^verbatim>\<open>BaseAdapter.emitData\<close>:
  \<^verbatim>\<open>this.dataCallbacks.forEach(callback => { try { callback(data) } catch ... })\<close>, where a
  closure of the layer runs \<^verbatim>\<open>handleAdapterData\<close>.
\<close>

fun emit_to :: "Behaviour \<Rightarrow> string \<Rightarrow> DataItem \<Rightarrow> listener list \<Rightarrow> DataAdapterLayer \<Rightarrow> DataAdapterLayer" where
  "emit_to B name d [] L = L"
| "emit_to B name d (LayerHandler n # ls) L =
     emit_to B name d ls
       (case handleAdapterData B d L of
          (None, L') \<Rightarrow> L'
        | (Some e, L') \<Rightarrow> console [ConsoleError (ErrAdapterDataCallback name)] L')"
| "emit_to B name d (UserListener n # ls) L =
     emit_to B name d ls
       (if listener_throws B (observed (dataState L)) n (DataItem_val d)
        then console [ListenerCall n (DataItem_val d), ConsoleError (ErrAdapterDataCallback name)] L
        else console [ListenerCall n (DataItem_val d)] L)"

definition emitData :: "Behaviour \<Rightarrow> nat \<Rightarrow> DataItem \<Rightarrow> System \<Rightarrow> error option \<times> System" where
  "emitData B adapter d S =
     (None, S\<lparr> layer := emit_to B (a_name (objs S adapter)) d
                           (a_dataCallbacks (objs S adapter)) (layer S) \<rparr>)"

section \<open>Connecting and disconnecting all adapters\<close>

text \<open>
  \<^verbatim>\<open>connect()\<close> and \<^verbatim>\<open>disconnect()\<close> of an adapter return a promise.  What the layer
  sees of it is whether and when it settles: a schedule lists, in the order of time, the
  index of a promise in the array \<^verbatim>\<open>promises\<close> and how it settles; a promise that the
  schedule does not list stays pending.
\<close>

datatype outcome = Resolves | Rejects error

datatype settled = Fulfilled | Rejected error | Pending

text \<open>
  The state of \<^verbatim>\<open>await Promise.all(promises)\<close>: the indices still pending and the
  first rejection so far.  \<^verbatim>\<open>Promise.all\<close> rejects with the first rejection and
  fulfils when nothing is pending; \<^verbatim>\<open>Promise.allSettled\<close> fulfils when nothing is
  pending and never rejects.
\<close>

definition Promise_all :: "nat list \<Rightarrow> error option \<Rightarrow> settled" where
  "Promise_all pending first =
     (case first of Some e \<Rightarrow> Rejected e | None \<Rightarrow> if pending = [] then Fulfilled else Pending)"

definition Promise_allSettled :: "nat list \<Rightarrow> settled" where
  "Promise_allSettled pending = (if pending = [] then Fulfilled else Pending)"

text \<open>
  The rest of the body of the closure of \<^verbatim>\<open>connectAll\<close> for the adapter at index \<open>i\<close>,
  run when its \<^verbatim>\<open>connect()\<close> settles: log, and rethrow a rejection.
\<close>

fun connect_settles ::
  "bool \<Rightarrow> string list \<Rightarrow> (nat \<times> outcome) list \<Rightarrow> nat list \<times> error option \<times> event list
     \<Rightarrow> nat list \<times> error option \<times> event list" where
  "connect_settles logging names [] st = st"
| "connect_settles logging names ((i, out) # sched) (pending, first, tr) =
     connect_settles logging names sched
       (if i \<notin> set pending then (pending, first, tr)
        else case out of
               Resolves \<Rightarrow>
                 (removeAll i pending, first,
                  if logging then tr @ [ConsoleLog (ConnectedAdapter (names ! i))] else tr)
             | Rejects e \<Rightarrow>
                 (removeAll i pending, (case first of None \<Rightarrow> Some e | Some e' \<Rightarrow> Some e'),
                  tr @ [ConsoleError (FailedToConnect (names ! i))]))"

definition connectAll :: "(nat \<times> outcome) list \<Rightarrow> DataAdapterLayer \<Rightarrow> settled \<times> DataAdapterLayer" where
  "connectAll sched L =
     (let called = map (\<lambda>(name, adapter). ConnectCalled adapter) (adapters L);
          (pending, first, tr) =
             connect_settles (enableLogging L) (map fst (adapters L)) sched
               ([0..<length (adapters L)], None, called)
      in (Promise_all pending first, console tr L))"

text \<open>The same for \<^verbatim>\<open>disconnectAll\<close>, whose closure does not rethrow.\<close>

fun disconnect_settles ::
  "bool \<Rightarrow> string list \<Rightarrow> (nat \<times> outcome) list \<Rightarrow> nat list \<times> event list \<Rightarrow> nat list \<times> event list" where
  "disconnect_settles logging names [] st = st"
| "disconnect_settles logging names ((i, out) # sched) (pending, tr) =
     disconnect_settles logging names sched
       (if i \<notin> set pending then (pending, tr)
        else case out of
               Resolves \<Rightarrow>
                 (removeAll i pending,
                  if logging then tr @ [ConsoleLog (DisconnectedAdapter (names ! i))] else tr)
             | Rejects e \<Rightarrow>
                 (removeAll i pending, tr @ [ConsoleError (FailedToDisconnect (names ! i))]))"

definition disconnectAll :: "(nat \<times> outcome) list \<Rightarrow> DataAdapterLayer \<Rightarrow> settled \<times> DataAdapterLayer" where
  "disconnectAll sched L =
     (let called = map (\<lambda>(name, adapter). DisconnectCalled adapter) (adapters L);
          (pending, tr) =
             disconnect_settles (enableLogging L) (map fst (adapters L)) sched
               ([0..<length (adapters L)], called)
      in (Promise_allSettled pending, console tr L))"

section \<open>The push adapters (classes SSEAdapter and WebSocketAdapter)\<close>

text \<open>
  An adapter reacts to what its environment does: a call of \<^verbatim>\<open>connect()\<close> or
  \<^verbatim>\<open>disconnect()\<close>, an event of one of its \<^verbatim>\<open>EventSource\<close> or \<^verbatim>\<open>WebSocket\<close>
  objects, a timer that elapses.  Each of these runs a handler of the source to its end;
  the state of the adapter between two of them is a record, and a run is a list of events.
  An event that cannot happen in a state (an event of an object that is closed, a timer
  that is not pending) leaves the state as it is.

  The options are those left after the constructor has filled in the defaults.
\<close>

record SSEAdapterOptions =
  sse_reconnectInterval :: int
  sse_maxReconnectAttempts :: int

text \<open>
  \<open>sse_live\<close> lists the \<^verbatim>\<open>EventSource\<close> objects that were created and not closed
  (an object is named by its number of creation, \<open>sse_created\<close> counts them).  The last
  three fields record what the adapter did: the delay of every \<^verbatim>\<open>setTimeout\<close> of
  \<^verbatim>\<open>scheduleReconnect\<close>, the number of times the callback of that timer ran, and the
  messages emitted.
\<close>

record SSEAdapter =
  sse_connected :: bool
  sse_eventSource :: "nat option"
  sse_reconnectAttempts :: nat
  sse_reconnectTimer :: "int option"
  sse_live :: "nat list"
  sse_created :: nat
  sse_timeouts :: "int list"
  sse_reconnects :: nat
  sse_emitted :: "string list"

definition SSE_new :: SSEAdapter where
  "SSE_new = \<lparr> sse_connected = False, sse_eventSource = None, sse_reconnectAttempts = 0,
     sse_reconnectTimer = None, sse_live = [], sse_created = 0, sse_timeouts = [],
     sse_reconnects = 0, sse_emitted = [] \<rparr>"

definition SSE_connect :: "SSEAdapter \<Rightarrow> SSEAdapter" where
  "SSE_connect s =
     (if sse_connected s then s
      else s\<lparr> sse_eventSource := Some (sse_created s),
               sse_live := sse_live s @ [sse_created s],
               sse_created := Suc (sse_created s) \<rparr>)"

definition SSE_disconnect :: "SSEAdapter \<Rightarrow> SSEAdapter" where
  "SSE_disconnect s =
     (let s1 = s\<lparr> sse_reconnectTimer := None \<rparr>;
          s2 = (case sse_eventSource s1 of
                  None \<Rightarrow> s1
                | Some es \<Rightarrow> s1\<lparr> sse_live := removeAll es (sse_live s1), sse_eventSource := None \<rparr>)
      in s2\<lparr> sse_connected := False \<rparr>)"

definition SSE_scheduleReconnect :: "SSEAdapterOptions \<Rightarrow> SSEAdapter \<Rightarrow> SSEAdapter" where
  "SSE_scheduleReconnect opts s =
     (if sse_reconnectTimer s \<noteq> None then s
      else s\<lparr> sse_reconnectAttempts := Suc (sse_reconnectAttempts s),
               sse_reconnectTimer := Some (sse_reconnectInterval opts),
               sse_timeouts := sse_timeouts s @ [sse_reconnectInterval opts] \<rparr>)"

definition SSE_onopen :: "SSEAdapter \<Rightarrow> SSEAdapter" where
  "SSE_onopen s = s\<lparr> sse_connected := True, sse_reconnectAttempts := 0 \<rparr>"

definition SSE_onmessage :: "string \<Rightarrow> SSEAdapter \<Rightarrow> SSEAdapter" where
  "SSE_onmessage msg s = s\<lparr> sse_emitted := sse_emitted s @ [msg] \<rparr>"

definition SSE_onerror :: "SSEAdapterOptions \<Rightarrow> SSEAdapter \<Rightarrow> SSEAdapter" where
  "SSE_onerror opts s =
     (let s1 = s\<lparr> sse_connected := False \<rparr>
      in if int (sse_reconnectAttempts s1) < sse_maxReconnectAttempts opts
         then SSE_scheduleReconnect opts s1 else s1)"

text \<open>
  The callback of the timer of \<^verbatim>\<open>scheduleReconnect\<close>:
  \<^verbatim>\<open>this.reconnectTimer = null; await this.disconnect(); await this.connect()\<close>.
\<close>

definition SSE_reconnect :: "SSEAdapter \<Rightarrow> SSEAdapter" where
  "SSE_reconnect s =
     SSE_connect (SSE_disconnect (s\<lparr> sse_reconnectTimer := None,
                                      sse_reconnects := Suc (sse_reconnects s) \<rparr>))"

datatype sse_event =
    SseConnect
  | SseDisconnect
  | SseOpen nat
  | SseError nat
  | SseMessage nat string
  | SseTimer

fun sse_step :: "SSEAdapterOptions \<Rightarrow> sse_event \<Rightarrow> SSEAdapter \<Rightarrow> SSEAdapter" where
  "sse_step opts SseConnect s = SSE_connect s"
| "sse_step opts SseDisconnect s = SSE_disconnect s"
| "sse_step opts (SseOpen es) s = (if es \<in> set (sse_live s) then SSE_onopen s else s)"
| "sse_step opts (SseError es) s = (if es \<in> set (sse_live s) then SSE_onerror opts s else s)"
| "sse_step opts (SseMessage es msg) s = (if es \<in> set (sse_live s) then SSE_onmessage msg s else s)"
| "sse_step opts SseTimer s = (if sse_reconnectTimer s \<noteq> None then SSE_reconnect s else s)"

definition sse_run :: "SSEAdapterOptions \<Rightarrow> sse_event list \<Rightarrow> SSEAdapter \<Rightarrow> SSEAdapter" where
  "sse_run opts evs s = fold (sse_step opts) evs s"

text \<open>An event other than a successful open.\<close>

fun sse_no_open :: "sse_event \<Rightarrow> bool" where
  "sse_no_open (SseOpen es) = False"
| "sse_no_open ev = True"

text \<open>An event other than a successful open and a call of \<^verbatim>\<open>connect()\<close>.\<close>

fun sse_automatic :: "sse_event \<Rightarrow> bool" where
  "sse_automatic (SseOpen es) = False"
| "sse_automatic SseConnect = False"
| "sse_automatic ev = True"

text \<open>
  The \<^verbatim>\<open>WebSocket\<close> adapter.  A socket is \<^verbatim>\<open>CONNECTING\<close>, \<^verbatim>\<open>OPEN\<close>,
  \<^verbatim>\<open>CLOSING\<close> or \<^verbatim>\<open>CLOSED\<close>; \<open>ws_sockets\<close> gives the state of the sockets created
  so far, in the order of creation.  \<open>ws_pingTimer\<close> and \<open>ws_pongTimer\<close> say whether
  the timer is pending.
\<close>

datatype readyState = CONNECTING | OPEN | CLOSING | CLOSED

record WebSocketAdapterOptions =
  ws_reconnectInterval :: int
  ws_maxReconnectAttempts :: int
  ws_pingInterval :: int

record WebSocketAdapter =
  ws_connected :: bool
  ws_ws :: "nat option"
  ws_reconnectAttempts :: nat
  ws_reconnectTimer :: "int option"
  ws_pingTimer :: bool
  ws_pongTimer :: bool
  ws_sockets :: "readyState list"
  ws_timeouts :: "int list"
  ws_reconnects :: nat
  ws_emitted :: "string list"

definition WS_new :: WebSocketAdapter where
  "WS_new = \<lparr> ws_connected = False, ws_ws = None, ws_reconnectAttempts = 0,
     ws_reconnectTimer = None, ws_pingTimer = False, ws_pongTimer = False, ws_sockets = [],
     ws_timeouts = [], ws_reconnects = 0, ws_emitted = [] \<rparr>"

text \<open>\<^verbatim>\<open>ws.readyState\<close>, and \<^verbatim>\<open>ws.close()\<close>, which starts the closing handshake.\<close>

definition ws_readyState :: "WebSocketAdapter \<Rightarrow> nat \<Rightarrow> readyState" where
  "ws_readyState s w = (if w < length (ws_sockets s) then ws_sockets s ! w else CLOSED)"

definition ws_close :: "nat \<Rightarrow> WebSocketAdapter \<Rightarrow> WebSocketAdapter" where
  "ws_close w s =
     (if ws_readyState s w = CONNECTING \<or> ws_readyState s w = OPEN
      then s\<lparr> ws_sockets := (ws_sockets s)[w := CLOSING] \<rparr> else s)"

definition WS_connect :: "WebSocketAdapter \<Rightarrow> WebSocketAdapter" where
  "WS_connect s =
     (if ws_connected s then s
      else s\<lparr> ws_ws := Some (length (ws_sockets s)), ws_sockets := ws_sockets s @ [CONNECTING] \<rparr>)"

definition WS_stopPing :: "WebSocketAdapter \<Rightarrow> WebSocketAdapter" where
  "WS_stopPing s = s\<lparr> ws_pingTimer := False, ws_pongTimer := False \<rparr>"

definition WS_startPing :: "WebSocketAdapterOptions \<Rightarrow> WebSocketAdapter \<Rightarrow> WebSocketAdapter" where
  "WS_startPing opts s = (if ws_pingInterval opts > 0 then s\<lparr> ws_pingTimer := True \<rparr> else s)"

definition WS_disconnect :: "WebSocketAdapter \<Rightarrow> WebSocketAdapter" where
  "WS_disconnect s =
     (let s1 = s\<lparr> ws_reconnectTimer := None \<rparr>;
          s2 = WS_stopPing s1;
          s3 = (case ws_ws s2 of
                  None \<Rightarrow> s2
                | Some w \<Rightarrow> if ws_readyState s2 w = OPEN then ws_close w s2 else s2)
      in s3\<lparr> ws_ws := None, ws_connected := False \<rparr>)"

definition WS_scheduleReconnect :: "WebSocketAdapterOptions \<Rightarrow> WebSocketAdapter \<Rightarrow> WebSocketAdapter" where
  "WS_scheduleReconnect opts s =
     (if ws_reconnectTimer s \<noteq> None then s
      else s\<lparr> ws_reconnectAttempts := Suc (ws_reconnectAttempts s),
               ws_reconnectTimer := Some (ws_reconnectInterval opts),
               ws_timeouts := ws_timeouts s @ [ws_reconnectInterval opts] \<rparr>)"

definition WS_onopen :: "WebSocketAdapterOptions \<Rightarrow> WebSocketAdapter \<Rightarrow> WebSocketAdapter" where
  "WS_onopen opts s = WS_startPing opts (s\<lparr> ws_connected := True, ws_reconnectAttempts := 0 \<rparr>)"

definition WS_onmessage :: "string \<Rightarrow> WebSocketAdapter \<Rightarrow> WebSocketAdapter" where
  "WS_onmessage msg s =
     (if msg = ''pong'' then s\<lparr> ws_pongTimer := False \<rparr>
      else s\<lparr> ws_emitted := ws_emitted s @ [msg] \<rparr>)"

definition WS_onclose :: "WebSocketAdapterOptions \<Rightarrow> bool \<Rightarrow> WebSocketAdapter \<Rightarrow> WebSocketAdapter" where
  "WS_onclose opts wasClean s =
     (let s1 = WS_stopPing (s\<lparr> ws_connected := False \<rparr>)
      in if \<not> wasClean \<and> int (ws_reconnectAttempts s1) < ws_maxReconnectAttempts opts
         then WS_scheduleReconnect opts s1 else s1)"

text \<open>\<^verbatim>\<open>ping()\<close>, run by the interval timer, and the callback of the pong timer.\<close>

definition WS_ping :: "WebSocketAdapter \<Rightarrow> WebSocketAdapter" where
  "WS_ping s =
     (case ws_ws s of
        None \<Rightarrow> s
      | Some w \<Rightarrow> if ws_readyState s w = OPEN then s\<lparr> ws_pongTimer := True \<rparr> else s)"

definition WS_pongTimeout :: "WebSocketAdapter \<Rightarrow> WebSocketAdapter" where
  "WS_pongTimeout s =
     (case ws_ws s of None \<Rightarrow> s\<lparr> ws_pongTimer := False \<rparr>
      | Some w \<Rightarrow> ws_close w (s\<lparr> ws_pongTimer := False \<rparr>))"

definition WS_reconnect :: "WebSocketAdapter \<Rightarrow> WebSocketAdapter" where
  "WS_reconnect s =
     WS_connect (WS_disconnect (s\<lparr> ws_reconnectTimer := None,
                                    ws_reconnects := Suc (ws_reconnects s) \<rparr>))"

text \<open>
  The events of a socket: it opens, it receives a message, it reports an error (the
  handler only rejects the promise of \<^verbatim>\<open>connect\<close>), it closes.
\<close>

datatype ws_event =
    WsConnect
  | WsDisconnect
  | WsOpen nat
  | WsMessage nat string
  | WsError nat
  | WsClose nat bool
  | WsReconnectTimer
  | WsPingTimer
  | WsPongTimer

fun ws_step :: "WebSocketAdapterOptions \<Rightarrow> ws_event \<Rightarrow> WebSocketAdapter \<Rightarrow> WebSocketAdapter" where
  "ws_step opts WsConnect s = WS_connect s"
| "ws_step opts WsDisconnect s = WS_disconnect s"
| "ws_step opts (WsOpen w) s =
     (if ws_readyState s w = CONNECTING
      then WS_onopen opts (s\<lparr> ws_sockets := (ws_sockets s)[w := OPEN] \<rparr>) else s)"
| "ws_step opts (WsMessage w msg) s = (if ws_readyState s w = OPEN then WS_onmessage msg s else s)"
| "ws_step opts (WsError w) s = s"
| "ws_step opts (WsClose w wasClean) s =
     (if ws_readyState s w \<noteq> CLOSED
      then WS_onclose opts wasClean (s\<lparr> ws_sockets := (ws_sockets s)[w := CLOSED] \<rparr>) else s)"
| "ws_step opts WsReconnectTimer s = (if ws_reconnectTimer s \<noteq> None then WS_reconnect s else s)"
| "ws_step opts WsPingTimer s = (if ws_pingTimer s then WS_ping s else s)"
| "ws_step opts WsPongTimer s = (if ws_pongTimer s then WS_pongTimeout s else s)"

definition ws_run :: "WebSocketAdapterOptions \<Rightarrow> ws_event list \<Rightarrow> WebSocketAdapter \<Rightarrow> WebSocketAdapter" where
  "ws_run opts evs s = fold (ws_step opts) evs s"

fun ws_no_open :: "ws_event \<Rightarrow> bool" where
  "ws_no_open (WsOpen w) = False"
| "ws_no_open ev = True"

fun ws_automatic :: "ws_event \<Rightarrow> bool" where
  "ws_automatic (WsOpen w) = False"
| "ws_automatic WsConnect = False"
| "ws_automatic ev = True"

text \<open>
  Options with \<^verbatim>\<open>maxReconnectAttempts = 3\<close>, and each adapter after \<^verbatim>\<open>connect()\<close>
  has succeeded.
\<close>

definition sse_opts3 :: SSEAdapterOptions where
  "sse_opts3 = \<lparr> sse_reconnectInterval = 5000, sse_maxReconnectAttempts = 3 \<rparr>"

definition sse_connected0 :: SSEAdapter where
  "sse_connected0 = sse_run sse_opts3 [SseConnect, SseOpen 0] SSE_new"

definition ws_opts3 :: WebSocketAdapterOptions where
  "ws_opts3 = \<lparr> ws_reconnectInterval = 5000, ws_maxReconnectAttempts = 3, ws_pingInterval = 30000 \<rparr>"

definition ws_connected0 :: WebSocketAdapter where
  "ws_connected0 = ws_run ws_opts3 [WsConnect, WsOpen 0] WS_new"

section \<open>The stream adapter (class StreamAdapter)\<close>

text \<open>
  \<^verbatim>\<open>startStream\<close> is an \<^verbatim>\<open>async\<close> function: a call of it runs until it awaits
  \<^verbatim>\<open>fetch\<close> or \<^verbatim>\<open>reader.read()\<close>, and goes on when the environment settles that
  promise.  A call that is suspended is a task: its \<^verbatim>\<open>retryCount\<close> and the place where
  it waits, with the \<^verbatim>\<open>buffer\<close> when it waits for a read.  Tasks, abort controllers
  and readers are named by the number of the call of \<^verbatim>\<open>startStream\<close> that made them.
\<close>

datatype failure = AbortError | OtherError

datatype phase = AwaitFetch | AwaitRead string

record StreamAdapterOptions =
  st_retryAttempts :: int
  st_retryDelay :: int
  st_timeout :: int

text \<open>
  \<open>st_retryTimers\<close> holds, for every pending timer of the retry logic, the
  \<^verbatim>\<open>retryCount\<close> that its callback passes to \<^verbatim>\<open>startStream\<close>; \<open>st_timeoutTimers\<close>
  the tasks whose timeout timer is pending; \<open>st_aborted\<close> the controllers whose signal is
  aborted and \<open>st_cancelled\<close> the readers that were cancelled; \<open>st_cancelling\<close> says
  that \<^verbatim>\<open>disconnect\<close> waits for \<^verbatim>\<open>reader.cancel()\<close>; \<open>st_emitted\<close> lists the lines
  given to \<^verbatim>\<open>processStreamLine\<close>, each of which is emitted as one envelope.
\<close>

record StreamAdapter =
  st_connected :: bool
  st_reader :: "nat option"
  st_abortController :: "nat option"
  st_tasks :: "(nat \<times> nat \<times> phase) list"
  st_started :: nat
  st_retryTimers :: "nat list"
  st_timeoutTimers :: "nat list"
  st_aborted :: "nat list"
  st_cancelled :: "nat list"
  st_cancelling :: bool
  st_emitted :: "string list"

definition Stream_new :: StreamAdapter where
  "Stream_new = \<lparr> st_connected = False, st_reader = None, st_abortController = None,
     st_tasks = [], st_started = 0, st_retryTimers = [], st_timeoutTimers = [],
     st_aborted = [], st_cancelled = [], st_cancelling = False, st_emitted = [] \<rparr>"

text \<open>
  \<^verbatim>\<open>buffer.split('\n')\<close>, which gives at least one piece, and \<^verbatim>\<open>trim()\<close> for the
  white space of ASCII.
\<close>

fun split_nl :: "string \<Rightarrow> string list" where
  "split_nl [] = [[]]"
| "split_nl (c # cs) =
     (if c = CHR 0x0A then [] # split_nl cs
      else (case split_nl cs of [] \<Rightarrow> [[c]] | l # ls \<Rightarrow> (c # l) # ls))"

definition is_space :: "char \<Rightarrow> bool" where
  "is_space c = (c \<in> {CHR 0x09, CHR 0x0A, CHR 0x0B, CHR 0x0C, CHR 0x0D, CHR 0x20})"

definition trim :: "string \<Rightarrow> string" where
  "trim s = rev (dropWhile is_space (rev (dropWhile is_space s)))"

text \<open>\<^verbatim>\<open>for (const line of lines) if (line.trim()) this.processStreamLine(line.trim())\<close>.\<close>

definition process_lines :: "string list \<Rightarrow> StreamAdapter \<Rightarrow> StreamAdapter" where
  "process_lines lines s =
     s\<lparr> st_emitted := st_emitted s @ filter (\<lambda>l. l \<noteq> []) (map trim lines) \<rparr>"

text \<open>The \<^verbatim>\<open>finally\<close> block, after which the call \<open>tid\<close> is over.\<close>

definition stream_finally :: "nat \<Rightarrow> StreamAdapter \<Rightarrow> StreamAdapter" where
  "stream_finally tid s =
     s\<lparr> st_reader := None, st_abortController := None,
        st_tasks := filter (\<lambda>t. fst t \<noteq> tid) (st_tasks s) \<rparr>"

text \<open>The outer \<^verbatim>\<open>catch\<close> block with the retry logic, and then \<^verbatim>\<open>finally\<close>.\<close>

definition stream_catch ::
  "StreamAdapterOptions \<Rightarrow> nat \<Rightarrow> nat \<Rightarrow> failure \<Rightarrow> StreamAdapter \<Rightarrow> StreamAdapter" where
  "stream_catch opts tid retryCount err s =
     stream_finally tid
       (if err = AbortError then s
        else if int retryCount < st_retryAttempts opts \<and> st_connected s
        then s\<lparr> st_retryTimers := st_retryTimers s @ [retryCount + 1] \<rparr>
        else s\<lparr> st_connected := False \<rparr>)"

text \<open>What follows the loop: the rest of the buffer, and \<^verbatim>\<open>finally\<close>.\<close>

definition stream_after_loop :: "nat \<Rightarrow> string \<Rightarrow> StreamAdapter \<Rightarrow> StreamAdapter" where
  "stream_after_loop tid buffer s = stream_finally tid (process_lines [buffer] s)"

text \<open>
  The head of the loop, \<^verbatim>\<open>while (this.connected) { ... await this.reader.read()\<close>:
  the task waits for the read, or leaves the loop; reading from \<^verbatim>\<open>this.reader\<close> when
  it is \<^verbatim>\<open>null\<close> throws a \<^verbatim>\<open>TypeError\<close>.
\<close>

definition stream_loop ::
  "StreamAdapterOptions \<Rightarrow> nat \<Rightarrow> nat \<Rightarrow> string \<Rightarrow> StreamAdapter \<Rightarrow> StreamAdapter" where
  "stream_loop opts tid retryCount buffer s =
     (if st_connected s
      then (case st_reader s of
              None \<Rightarrow> stream_catch opts tid retryCount OtherError s
            | Some r \<Rightarrow> s\<lparr> st_tasks := AList.update tid (retryCount, AwaitRead buffer) (st_tasks s) \<rparr>)
      else stream_after_loop tid buffer s)"

text \<open>\<^verbatim>\<open>startStream(retryCount)\<close> up to \<^verbatim>\<open>await fetch(...)\<close>.\<close>

definition startStream :: "nat \<Rightarrow> StreamAdapter \<Rightarrow> StreamAdapter" where
  "startStream retryCount s =
     s\<lparr> st_abortController := Some (st_started s),
        st_timeoutTimers := st_timeoutTimers s @ [st_started s],
        st_tasks := st_tasks s @ [(st_started s, retryCount, AwaitFetch)],
        st_started := Suc (st_started s) \<rparr>"

text \<open>\<^verbatim>\<open>fetch\<close> gave a response: from \<^verbatim>\<open>clearTimeout(timeoutId)\<close> to the loop.\<close>

definition stream_response ::
  "StreamAdapterOptions \<Rightarrow> nat \<Rightarrow> nat \<Rightarrow> bool \<Rightarrow> bool \<Rightarrow> StreamAdapter \<Rightarrow> StreamAdapter" where
  "stream_response opts tid retryCount ok hasBody s =
     (let s1 = s\<lparr> st_timeoutTimers := removeAll tid (st_timeoutTimers s) \<rparr>
      in if \<not> ok \<or> \<not> hasBody then stream_catch opts tid retryCount OtherError s1
         else stream_loop opts tid retryCount [] (s1\<lparr> st_connected := True, st_reader := Some tid \<rparr>))"

text \<open>A read gave a chunk: the body of the loop after the \<^verbatim>\<open>await\<close>, and its head again.\<close>

definition stream_chunk ::
  "StreamAdapterOptions \<Rightarrow> nat \<Rightarrow> nat \<Rightarrow> string \<Rightarrow> string \<Rightarrow> StreamAdapter \<Rightarrow> StreamAdapter" where
  "stream_chunk opts tid retryCount buffer chunk s =
     (let lines = split_nl (buffer @ chunk)
      in stream_loop opts tid retryCount (last lines) (process_lines (butlast lines) s))"

text \<open>\<^verbatim>\<open>disconnect()\<close> up to \<^verbatim>\<open>await this.reader.cancel()\<close>, and the rest of it.\<close>

definition Stream_disconnect_rest :: "StreamAdapter \<Rightarrow> StreamAdapter" where
  "Stream_disconnect_rest s =
     (case st_abortController s of
        None \<Rightarrow> s
      | Some c \<Rightarrow> s\<lparr> st_aborted := st_aborted s @ [c], st_abortController := None \<rparr>)"

definition Stream_disconnect :: "StreamAdapter \<Rightarrow> StreamAdapter" where
  "Stream_disconnect s =
     (let s1 = s\<lparr> st_connected := False \<rparr>
      in case st_reader s1 of
           None \<Rightarrow> Stream_disconnect_rest s1
         | Some r \<Rightarrow> s1\<lparr> st_cancelled := st_cancelled s1 @ [r], st_cancelling := True \<rparr>)"

definition Stream_connect :: "StreamAdapter \<Rightarrow> StreamAdapter" where
  "Stream_connect s = (if st_connected s then s else startStream 0 s)"

text \<open>
  The events: the two calls; \<^verbatim>\<open>reader.cancel()\<close> settles; the \<^verbatim>\<open>fetch\<close> of a task
  gives a response (with \<^verbatim>\<open>ok\<close> and whether it has a body) or fails; the read of a task
  gives a chunk, ends or fails; a retry timer and a timeout timer elapse.  A \<^verbatim>\<open>fetch\<close>
  whose signal is aborted does not give a response, and a reader that was cancelled gives
  no chunk.
\<close>

datatype stream_event =
    StConnect
  | StDisconnect
  | StCancelled
  | StResponse nat bool bool
  | StFetchFails nat failure
  | StChunk nat string
  | StDone nat
  | StReadFails nat failure
  | StRetryTimer nat
  | StTimeoutTimer nat

fun stream_step :: "StreamAdapterOptions \<Rightarrow> stream_event \<Rightarrow> StreamAdapter \<Rightarrow> StreamAdapter" where
  "stream_step opts StConnect s = Stream_connect s"
| "stream_step opts StDisconnect s = Stream_disconnect s"
| "stream_step opts StCancelled s =
     (if st_cancelling s
      then Stream_disconnect_rest (s\<lparr> st_cancelling := False, st_reader := None \<rparr>) else s)"
| "stream_step opts (StResponse tid ok hasBody) s =
     (case map_of (st_tasks s) tid of
        Some (retryCount, AwaitFetch) \<Rightarrow>
          if tid \<in> set (st_aborted s) then s else stream_response opts tid retryCount ok hasBody s
      | _ \<Rightarrow> s)"
| "stream_step opts (StFetchFails tid err) s =
     (case map_of (st_tasks s) tid of
        Some (retryCount, AwaitFetch) \<Rightarrow> stream_catch opts tid retryCount err s
      | _ \<Rightarrow> s)"
| "stream_step opts (StChunk tid chunk) s =
     (case map_of (st_tasks s) tid of
        Some (retryCount, AwaitRead buffer) \<Rightarrow>
          if tid \<in> set (st_cancelled s) then s else stream_chunk opts tid retryCount buffer chunk s
      | _ \<Rightarrow> s)"
| "stream_step opts (StDone tid) s =
     (case map_of (st_tasks s) tid of
        Some (retryCount, AwaitRead buffer) \<Rightarrow> stream_after_loop tid buffer s
      | _ \<Rightarrow> s)"
| "stream_step opts (StReadFails tid err) s =
     (case map_of (st_tasks s) tid of
        Some (retryCount, AwaitRead buffer) \<Rightarrow>
          if err = AbortError then stream_after_loop tid buffer s
          else stream_catch opts tid retryCount err s
      | _ \<Rightarrow> s)"
| "stream_step opts (StRetryTimer retryCount) s =
     (if retryCount \<in> set (st_retryTimers s)
      then startStream retryCount (s\<lparr> st_retryTimers := remove1 retryCount (st_retryTimers s) \<rparr>)
      else s)"
| "stream_step opts (StTimeoutTimer tid) s =
     (if tid \<in> set (st_timeoutTimers s)
      then (let s1 = s\<lparr> st_timeoutTimers := removeAll tid (st_timeoutTimers s) \<rparr>
            in case st_abortController s1 of
                 None \<Rightarrow> s1
               | Some c \<Rightarrow> s1\<lparr> st_aborted := st_aborted s1 @ [c] \<rparr>)
      else s)"

definition stream_run :: "StreamAdapterOptions \<Rightarrow> stream_event list \<Rightarrow> StreamAdapter \<Rightarrow> StreamAdapter" where
  "stream_run opts evs s = fold (stream_step opts) evs s"

text \<open>
  The options that the constructor sets by default, and a run: the stream is connected and
  has given a line when a read fails; \<^verbatim>\<open>disconnect()\<close> is called, and returns, while
  the retry is pending.
\<close>

definition stream_defaults :: StreamAdapterOptions where
  "stream_defaults = \<lparr> st_retryAttempts = 3, st_retryDelay = 2000, st_timeout = 30000 \<rparr>"

definition stream_disconnected :: StreamAdapter where
  "stream_disconnected =
     stream_run stream_defaults
       [StConnect, StResponse 0 True True, StChunk 0 (''a'' @ [CHR 0x0A]), StReadFails 0 OtherError,
        StDisconnect]
       Stream_new"

section \<open>Reading the log\<close>

text \<open>
  \<open>emitted s s'\<close> is what a call that took the store from \<open>s\<close> to \<open>s'\<close> added to the
  log; \<open>invocations\<close> keeps the callback calls of a log and drops the console lines;
  \<open>seen_by c\<close> lists the values a per-key callback \<open>c\<close> was called with, in order.
\<close>

definition emitted :: "DataState \<Rightarrow> DataState \<Rightarrow> event list" where
  "emitted s s' = drop (length (observed s)) (observed s')"

definition invocations :: "event list \<Rightarrow> event list" where
  "invocations tr =
     filter (\<lambda>e. case e of ConsoleError _ \<Rightarrow> False | ConsoleLog _ \<Rightarrow> False | _ \<Rightarrow> True) tr"

definition seen_by :: "nat \<Rightarrow> event list \<Rightarrow> jsval list" where
  "seen_by c tr =
     concat (map (\<lambda>e. case e of KeyCall c' v \<Rightarrow> (if c' = c then [v] else []) | _ \<Rightarrow> []) tr)"

text \<open>The members of the \<^verbatim>\<open>Set\<close> that \<open>subscribers\<close> holds for a key now.\<close>

definition key_subscribers :: "DataState \<Rightarrow> string \<Rightarrow> nat list" where
  "key_subscribers s key = (case Map_get (subscribers s) key of None \<Rightarrow> [] | Some r \<Rightarrow> sets s r)"

text \<open>
  What the representation of a store must satisfy to stand for a JavaScript heap: a
  \<^verbatim>\<open>Map\<close> has one entry for a key, a \<^verbatim>\<open>Set\<close> has a member once, and a reference in
  use has been allocated.  The new store satisfies it and every operation keeps it.
\<close>

definition wf_store :: "DataState \<Rightarrow> bool" where
  "wf_store s = (distinct (map fst (subscribers s))
     \<and> list_all (\<lambda>(k, r). r < next_ref s \<and> distinct (sets s r)) (subscribers s)
     \<and> distinct (globalSubscribers s))"

text \<open>
  A store with two subscribers of key \<^verbatim>\<open>k\<close> and two global subscribers, where the
  per-key callback 1 and the global callback 7 throw whenever they are called.
\<close>

definition B_throwing :: Behaviour where
  "B_throwing = \<lparr> key_throws = (\<lambda>tr c v. c = 1), global_throws = (\<lambda>tr g k v. g = 7),
     data_throws = (\<lambda>tr c v. c = 4), listener_throws = (\<lambda>tr c v. False) \<rparr>"

definition ex_store :: DataState where
  "ex_store = DataState_subscribeAll B_throwing 8 (DataState_subscribeAll B_throwing 7
     (snd (DataState_subscribe B_throwing ''k'' 2
        (snd (DataState_subscribe B_throwing ''k'' 1 DataState_new)))))"


text \<open>
  The callbacks that a \<^verbatim>\<open>set(key, v)\<close> on the store \<open>s\<close> has to call, in order.
\<close>

definition notified :: "DataState \<Rightarrow> string \<Rightarrow> jsval \<Rightarrow> event list" where
  "notified s key v =
     map (\<lambda>c. KeyCall c v) (key_subscribers s key) @ map (\<lambda>g. GlobalCall g key v) (globalSubscribers s)"

text \<open>An event that is a line on the console.\<close>

definition is_console :: "event \<Rightarrow> bool" where
  "is_console ev = (case ev of ConsoleLog l \<Rightarrow> True | ConsoleError l \<Rightarrow> True | _ \<Rightarrow> False)"

text \<open>
  Envelopes, checkout functions, a layer over the store above with one data callback, a
  system whose adapter objects are all named \<^verbatim>\<open>sensor\<close>, and a registry of three
  adapters.
\<close>

definition ex_item :: DataItem where
  "ex_item = \<lparr> item_id = ''e1'', item_timestamp = 1000,
      item_data = Obj [(''temp'', Num 30), (''stateUpdates'', Obj [(''a'', Num 1), (''b'', Num 2)])],
      item_source = Some ''sensor'' \<rparr>"

definition ex_unnamed :: DataItem where
  "ex_unnamed = \<lparr> item_id = ''7'', item_timestamp = 0, item_data = Null, item_source = Some [] \<rparr>"

definition ex_transform :: CheckoutFunction where
  "ex_transform payload =
     Inr \<lparr> res_key = ''sensor-S1'', res_data = Obj [(''temp'', Num 30), (''processed'', Bool True)] \<rparr>"

definition throwing_transform :: CheckoutFunction where
  "throwing_transform payload = Inl (Thrown (Str ''boom''))"

definition ex_layer :: DataAdapterLayer where
  "ex_layer = DataAdapterLayer_onData 4 ((DataAdapterLayer_new True)\<lparr> dataState := ex_store \<rparr>)"

definition ex_system :: System where
  "ex_system = \<lparr> layer = DataAdapterLayer_new True,
      objs = (\<lambda>r. \<lparr> a_name = ''sensor'', a_dataCallbacks = [] \<rparr>), next_closure = 0 \<rparr>"

definition ex_registry :: DataAdapterLayer where
  "ex_registry = (DataAdapterLayer_new True)\<lparr> adapters := [(''a'', 0), (''b'', 1), (''c'', 2)] \<rparr>"

section \<open>Properties of the store\<close>

lemma invocations_append [simp]: "invocations (a @ b) = invocations a @ invocations b"
  by (simp add: invocations_def)

lemma seen_by_append [simp]: "seen_by c (a @ b) = seen_by c a @ seen_by c b"
  by (simp add: seen_by_def)

lemma notify_key_new:
  "\<exists>new. notify_key B k v cs tr = tr @ new \<and> invocations new = map (\<lambda>c. KeyCall c v) cs"
proof (induction cs arbitrary: tr)
  case Nil
  then show ?case by (simp add: invocations_def)
next
  case (Cons c cs)
  let ?tr' = "(if key_throws B tr c v
        then tr @ [KeyCall c v, ConsoleError (ErrSubscriber k)]
        else tr @ [KeyCall c v])"
  from Cons.IH[of ?tr'] obtain new where
    n: "notify_key B k v cs ?tr' = ?tr' @ new" "invocations new = map (\<lambda>c. KeyCall c v) cs"
     by blast
  show ?case
  proof (cases "key_throws B tr c v")
    case True
    with n show ?thesis
      by (intro exI[of _ "[KeyCall c v, ConsoleError (ErrSubscriber k)] @ new"]) (auto simp: invocations_def)
  next
    case False
    with n show ?thesis
      by (intro exI[of _ "[KeyCall c v] @ new"]) (auto simp: invocations_def)
  qed
qed

lemma notify_global_new:
  "\<exists>new. notify_global B k v gs tr = tr @ new \<and> invocations new = map (\<lambda>g. GlobalCall g k v) gs"
proof (induction gs arbitrary: tr)
  case Nil
  then show ?case by (simp add: invocations_def)
next
  case (Cons g gs)
  let ?tr' = "(if global_throws B tr g k v
        then tr @ [GlobalCall g k v, ConsoleError ErrGlobalSubscriber]
        else tr @ [GlobalCall g k v])"
  from Cons.IH[of ?tr'] obtain new where
    n: "notify_global B k v gs ?tr' = ?tr' @ new" "invocations new = map (\<lambda>g. GlobalCall g k v) gs"
     by blast
  show ?case
  proof (cases "global_throws B tr g k v")
    case True
    with n show ?thesis
      by (intro exI[of _ "[GlobalCall g k v, ConsoleError ErrGlobalSubscriber] @ new"]) (auto simp: invocations_def)
  next
    case False
    with n show ?thesis
      by (intro exI[of _ "[GlobalCall g k v] @ new"]) (auto simp: invocations_def)
  qed
qed

lemma seen_by_invocations: "seen_by c (invocations tr) = seen_by c tr"
  by (induction tr) (auto simp: seen_by_def invocations_def split: event.splits)

lemma seen_by_keycalls:
  "seen_by c (map (\<lambda>c. KeyCall c v) cs) = replicate (count_list cs c) v"
  by (induction cs) (auto simp: seen_by_def)

lemma seen_by_globalcalls: "seen_by c (map (\<lambda>g. GlobalCall g k v) gs) = []"
  by (induction gs) (auto simp: seen_by_def)

lemma count_list_distinct: "distinct cs \<Longrightarrow> c \<in> set cs \<Longrightarrow> count_list cs c = Suc 0"
  by (induction cs) auto

lemma set_emitted:
  "\<exists>new. observed (DataState_set B key v s) = observed s @ new \<and>
     invocations new = map (\<lambda>c. KeyCall c v) (key_subscribers s key)
                       @ map (\<lambda>g. GlobalCall g key v) (globalSubscribers s)"
proof (cases "Map_get (subscribers s) key")
  case None
  obtain n2 where "notify_global B key v (globalSubscribers s) (observed s) = observed s @ n2"
     "invocations n2 = map (\<lambda>g. GlobalCall g key v) (globalSubscribers s)"
    using notify_global_new by blast
  with None show ?thesis
    by (simp add: DataState_set_def key_subscribers_def)
next
  case (Some r)
  obtain n1 where n1: "notify_key B key v (sets s r) (observed s) = observed s @ n1"
     "invocations n1 = map (\<lambda>c. KeyCall c v) (sets s r)"
    using notify_key_new by blast
  obtain n2 where "notify_global B key v (globalSubscribers s) (observed s @ n1) = (observed s @ n1) @ n2"
     "invocations n2 = map (\<lambda>g. GlobalCall g key v) (globalSubscribers s)"
    using notify_global_new by blast
  with Some n1 show ?thesis
    by (simp add: DataState_set_def key_subscribers_def)
qed

lemma set_invocations:
  "invocations (emitted s (DataState_set B key v s)) =
     map (\<lambda>c. KeyCall c v) (key_subscribers s key) @ map (\<lambda>g. GlobalCall g key v) (globalSubscribers s)"
  using set_emitted[of B key v s] by (auto simp: emitted_def)

lemma set_prefix: "take (length (observed s)) (observed (DataState_set B key v s)) = observed s"
  using set_emitted[of B key v s] by auto

lemma set_get_same: "DataState_get (DataState_set B key v s) key = v"
  by (simp add: DataState_set_def DataState_get_def Map_get_def Map_set_def Let_def update_conv')

lemma set_get_other: "key' \<noteq> key \<Longrightarrow> DataState_get (DataState_set B key v s) key' = DataState_get s key'"
  by (simp add: DataState_set_def DataState_get_def Map_get_def Map_set_def Let_def update_conv')

lemma set_keys: "set (DataState_keys (DataState_set B key v s)) = insert key (set (DataState_keys s))"
  by (simp add: DataState_set_def DataState_keys_def Map_keys_def Map_set_def Let_def dom_update)

lemma set_subscribers [simp]:
  "subscribers (DataState_set B key v s) = subscribers s"
  "sets (DataState_set B key v s) = sets s"
  "globalSubscribers (DataState_set B key v s) = globalSubscribers s"
  "next_ref (DataState_set B key v s) = next_ref s"
  by (simp_all add: DataState_set_def Let_def)

lemma key_subscribers_set [simp]:
  "key_subscribers (DataState_set B key v s) k = key_subscribers s k"
  by (simp add: key_subscribers_def split: option.split)

lemma emitted_trans:
  "observed s1 = observed s @ a \<Longrightarrow> observed s2 = observed s1 @ b \<Longrightarrow> emitted s s2 = emitted s s1 @ emitted s1 s2"
  by (simp add: emitted_def)

lemma set_set_seen:
  assumes "distinct (key_subscribers s key)" "c \<in> set (key_subscribers s key)"
  shows "seen_by c (emitted s (DataState_set B key v2 (DataState_set B key v1 s))) = [v1, v2]"
proof -
  let ?s1 = "DataState_set B key v1 s"
  let ?s2 = "DataState_set B key v2 ?s1"
  obtain a where a: "observed ?s1 = observed s @ a" using set_emitted by blast
  obtain b where b: "observed ?s2 = observed ?s1 @ b" using set_emitted by blast
  have one: "seen_by c (emitted s' (DataState_set B key v s')) = [v]"
    if "key_subscribers s' key = key_subscribers s key" for s' v
  proof -
    have "seen_by c (emitted s' (DataState_set B key v s')) = seen_by c (invocations (emitted s' (DataState_set B key v s')))"
      by (simp add: seen_by_invocations)
    also have "\<dots> = replicate (count_list (key_subscribers s key) c) v"
      by (simp add: set_invocations that seen_by_keycalls seen_by_globalcalls)
    finally show ?thesis using assms by (simp add: count_list_distinct)
  qed
  have "emitted s ?s2 = emitted s ?s1 @ emitted ?s1 ?s2"
    using emitted_trans[OF a b] .
  then show ?thesis using one[of s v1] one[of ?s1 v2] by simp
qed


subsection \<open>subscribe\<close>

lemma update_absent: "map_of al k = None \<Longrightarrow> AList.update k v al = al @ [(k, v)]"
  by (induction al) (auto split: if_splits)

lemma subscribe_absent:
  assumes "map_of (subscribers s) key = None"
  shows "subscribers (snd (DataState_subscribe B key c s)) = subscribers s @ [(key, next_ref s)]"
    and "sets (snd (DataState_subscribe B key c s)) = (sets s)(next_ref s := [c])"
    and "next_ref (snd (DataState_subscribe B key c s)) = Suc (next_ref s)"
    and "globalSubscribers (snd (DataState_subscribe B key c s)) = globalSubscribers s"
  using assms
  by (simp_all add: DataState_subscribe_def Let_def Map_has_def Map_get_def Map_set_def
      update_absent Set_add_def map_add_def)

lemma subscribe_present:
  assumes "map_of (subscribers s) key = Some r"
  shows "subscribers (snd (DataState_subscribe B key c s)) = subscribers s"
    and "sets (snd (DataState_subscribe B key c s)) = (sets s)(r := Set_add c (sets s r))"
    and "next_ref (snd (DataState_subscribe B key c s)) = next_ref s"
    and "globalSubscribers (snd (DataState_subscribe B key c s)) = globalSubscribers s"
  using assms
  by (simp_all add: DataState_subscribe_def Let_def Map_has_def Map_get_def)

lemma subscribe_registered:
  "c \<in> set (key_subscribers (snd (DataState_subscribe B key c s)) key)"
proof (cases "map_of (subscribers s) key")
  case None
  then show ?thesis
    by (simp add: key_subscribers_def Map_get_def subscribe_absent map_add_def)
next
  case (Some r)
  then show ?thesis
    by (simp add: key_subscribers_def Map_get_def subscribe_present Set_add_def)
qed

lemma subscribe_data [simp]: "data (snd (DataState_subscribe B key c s)) = data s"
  by (simp add: DataState_subscribe_def Let_def)

lemma subscribe_get [simp]: "DataState_get (snd (DataState_subscribe B key c s)) k = DataState_get s k"
  by (simp add: DataState_get_def)

lemma subscribe_observed:
  "observed (snd (DataState_subscribe B key c s)) =
     observed s @ (if DataState_get s key = Undefined then []
                   else if key_throws B (observed s) c (DataState_get s key)
                   then [KeyCall c (DataState_get s key), ConsoleError (ErrInitialCallback key)]
                   else [KeyCall c (DataState_get s key)])"
  by (simp add: DataState_subscribe_def DataState_get_def Let_def)

lemma subscribe_emitted_value:
  "DataState_get s key \<noteq> Undefined \<Longrightarrow>
     invocations (emitted s (snd (DataState_subscribe B key c s))) = [KeyCall c (DataState_get s key)]"
  by (simp add: emitted_def subscribe_observed invocations_def)

lemma subscribe_emitted_none:
  "DataState_get s key = Undefined \<Longrightarrow> emitted s (snd (DataState_subscribe B key c s)) = []"
  by (simp add: emitted_def subscribe_observed)

lemma subscribe_handle:
  "c_key (fst (DataState_subscribe B key c s)) = key"
  "c_callback (fst (DataState_subscribe B key c s)) = c"
  "Map_get (subscribers (snd (DataState_subscribe B key c s))) key
      = Some (c_keySubscribers (fst (DataState_subscribe B key c s)))"
proof -
  show "c_key (fst (DataState_subscribe B key c s)) = key"
    by (simp add: DataState_subscribe_def Let_def)
  show "c_callback (fst (DataState_subscribe B key c s)) = c"
    by (simp add: DataState_subscribe_def Let_def)
  show "Map_get (subscribers (snd (DataState_subscribe B key c s))) key
      = Some (c_keySubscribers (fst (DataState_subscribe B key c s)))"
  proof (cases "map_of (subscribers s) key")
    case None
    then show ?thesis
      by (simp add: subscribe_absent Map_get_def map_add_def)
         (simp add: DataState_subscribe_def Let_def Map_has_def Map_get_def Map_set_def update_conv')
  next
    case (Some r)
    then show ?thesis
      by (simp add: subscribe_present Map_get_def)
         (simp add: DataState_subscribe_def Let_def Map_has_def Map_get_def)
  qed
qed

subsection \<open>cancel\<close>

lemma cancel_removes: "c_callback h \<notin> set (sets (cancel h t) (c_keySubscribers h))"
  by (simp add: cancel_def Set_delete_def Let_def)

lemma cancel_idem: "cancel h (cancel h t) = cancel h t"
  by (simp add: cancel_def Set_delete_def Map_delete_def Let_def delete_idem)

lemma removeAll_empty_iff: "(removeAll c xs = []) = (set xs \<subseteq> {c})"
  by (induction xs) auto

lemma cancel_last:
  "set (sets t (c_keySubscribers h)) \<subseteq> {c_callback h} \<Longrightarrow> \<not> Map_has (subscribers (cancel h t)) (c_key h)"
  by (simp add: cancel_def Set_delete_def Map_delete_def Map_has_def Let_def delete_conv' removeAll_empty_iff)

lemma cancel_not_last:
  "\<not> set (sets t (c_keySubscribers h)) \<subseteq> {c_callback h} \<Longrightarrow> subscribers (cancel h t) = subscribers t"
  by (simp add: cancel_def Set_delete_def Let_def removeAll_empty_iff)

lemma cancel_unregistered:
  assumes "Map_get (subscribers t) (c_key h) = Some (c_keySubscribers h)"
  shows "c_callback h \<notin> set (key_subscribers (cancel h t) (c_key h))"
proof (cases "set (sets t (c_keySubscribers h)) \<subseteq> {c_callback h}")
  case True
  then have "\<not> Map_has (subscribers (cancel h t)) (c_key h)" by (rule cancel_last)
  then show ?thesis by (simp add: key_subscribers_def Map_has_def Map_get_def)
next
  case False
  then have "subscribers (cancel h t) = subscribers t" by (rule cancel_not_last)
  with assms have "key_subscribers (cancel h t) (c_key h) = sets (cancel h t) (c_keySubscribers h)"
    by (simp add: key_subscribers_def)
  then show ?thesis by (simp add: cancel_removes)
qed

lemma cancel_observed [simp]: "observed (cancel h t) = observed t"
  by (simp add: cancel_def Let_def)

lemma cancel_data [simp]: "data (cancel h t) = data t"
  by (simp add: cancel_def Let_def)

lemma seen_by_none: "c \<notin> set cs \<Longrightarrow> seen_by c (map (\<lambda>c. KeyCall c v) cs) = []"
  by (simp add: seen_by_keycalls)

lemma set_seen_unregistered:
  "c \<notin> set (key_subscribers s key) \<Longrightarrow> seen_by c (emitted s (DataState_set B key v s)) = []"
proof -
  assume a: "c \<notin> set (key_subscribers s key)"
  have "seen_by c (emitted s (DataState_set B key v s)) = seen_by c (invocations (emitted s (DataState_set B key v s)))"
    by (simp add: seen_by_invocations)
  also have "\<dots> = []" using a by (simp add: set_invocations seen_by_none seen_by_globalcalls)
  finally show ?thesis .
qed

subsection \<open>delete\<close>

lemma delete_emitted:
  "\<exists>new. observed (DataState_delete B key s) = observed s @ new \<and>
     invocations new = map (\<lambda>g. GlobalCall g key Undefined) (globalSubscribers s)"
  using notify_global_new[of B key Undefined "globalSubscribers s" "observed s"]
  by (simp add: DataState_delete_def Let_def)

lemma delete_invocations:
  "invocations (emitted s (DataState_delete B key s)) = map (\<lambda>g. GlobalCall g key Undefined) (globalSubscribers s)"
  using delete_emitted[of B key s] by (auto simp: emitted_def)

lemma delete_get: "DataState_get (DataState_delete B key s) key = Undefined"
  by (simp add: DataState_delete_def DataState_get_def Map_get_def Map_delete_def Let_def delete_conv')

lemma delete_keys: "key \<notin> set (DataState_keys (DataState_delete B key s))"
  by (simp add: DataState_delete_def DataState_keys_def Map_keys_def Map_delete_def Let_def delete_keys)

lemma delete_subscribers: "\<not> Map_has (subscribers (DataState_delete B key s)) key"
  by (simp add: DataState_delete_def Map_has_def Map_delete_def Let_def delete_conv')

lemma delete_key_subscribers: "key_subscribers (DataState_delete B key s) key = []"
  using delete_subscribers[of B key s] by (simp add: key_subscribers_def Map_has_def Map_get_def)

lemma delete_seen: "seen_by c (emitted s (DataState_delete B key s)) = []"
proof -
  have "seen_by c (emitted s (DataState_delete B key s)) = seen_by c (invocations (emitted s (DataState_delete B key s)))"
    by (simp add: seen_by_invocations)
  then show ?thesis by (simp add: delete_invocations seen_by_globalcalls)
qed

subsection \<open>The representation invariant is kept\<close>

lemma wf_new: "wf_store DataState_new"
  by (simp add: wf_store_def DataState_new_def)

lemma wf_set: "wf_store s \<Longrightarrow> wf_store (DataState_set B key v s)"
  by (simp add: wf_store_def)

lemma set_update_sub: "set (AList.update k v al) \<subseteq> insert (k, v) (set al)"
  by (induction al) auto

lemma set_delete_sub: "set (AList.delete k al) \<subseteq> set al"
  by (simp add: AList.delete_eq)

lemma wf_delete: "wf_store s \<Longrightarrow> wf_store (DataState_delete B key s)"
  using set_delete_sub[of key "subscribers s"]
  by (auto simp: wf_store_def DataState_delete_def Let_def Map_delete_def distinct_delete list_all_iff)

lemma wf_clear: "wf_store s \<Longrightarrow> wf_store (DataState_clear B s)"
  by (simp add: wf_store_def DataState_clear_def Let_def)

lemma distinct_Set_add: "distinct xs \<Longrightarrow> distinct (Set_add c xs)"
  by (simp add: Set_add_def)

lemma distinct_Set_delete: "distinct xs \<Longrightarrow> distinct (Set_delete c xs)"
  by (simp add: Set_delete_def distinct_removeAll)

lemma wf_subscribeAll: "wf_store s \<Longrightarrow> wf_store (DataState_subscribeAll B g s)"
  by (simp add: wf_store_def DataState_subscribeAll_def Let_def distinct_Set_add)

lemma wf_cancelAll: "wf_store s \<Longrightarrow> wf_store (cancelAll g s)"
  by (simp add: wf_store_def cancelAll_def distinct_Set_delete)

lemma wf_cancel: "wf_store s \<Longrightarrow> wf_store (cancel h s)"
  using set_delete_sub[of "c_key h" "subscribers s"]
  by (auto simp: wf_store_def cancel_def Let_def Map_delete_def distinct_delete list_all_iff distinct_Set_delete)

lemma wf_subscribe: 
  assumes "wf_store s" shows "wf_store (snd (DataState_subscribe B key c s))"
proof (cases "map_of (subscribers s) key")
  case None
  then have "key \<notin> fst ` set (subscribers s)" by (simp add: map_of_eq_None_iff)
  with assms show ?thesis
    unfolding wf_store_def subscribe_absent[OF None]
    by (auto simp: list_all_iff less_Suc_eq)
next
  case (Some r)
  with assms show ?thesis
    unfolding wf_store_def subscribe_present[OF Some]
    by (auto simp: list_all_iff distinct_Set_add)
qed

lemma ex_store_eq:
  "ex_store = \<lparr> data = [], subscribers = [(''k'', 0)], sets = (\<lambda>_. [])(0 := [1, 2]), next_ref = 1,
     globalSubscribers = [7, 8], observed = [] \<rparr>"
  by (simp add: ex_store_def DataState_subscribeAll_def DataState_subscribe_def DataState_new_def
      Let_def Map_has_def Map_get_def Map_set_def Set_add_def DataState_get_def)

lemma keycall_in_invocations: "KeyCall c v \<in> set tr \<Longrightarrow> KeyCall c v \<in> set (invocations tr)"
  by (simp add: invocations_def)

subsection \<open>Claims about the store\<close>

text \<open>
  Claim C1.  \<^verbatim>\<open>set(key, value)\<close> writes the entry, so that \<^verbatim>\<open>get(key)\<close> answers
  \<open>value\<close>, and only adds to the log.  The callbacks it calls are, in this order, every
  member of the key's subscriber set with \<open>value\<close>, in subscription order, and then every
  global subscriber with \<open>(key, value)\<close>; this holds for every behaviour \<open>B\<close>, hence
  whichever of the callbacks throw.  A callback that is subscribed to the key when
  \<^verbatim>\<open>set(key, v1)\<close> and \<^verbatim>\<open>set(key, v2)\<close> follow each other is called with exactly \<open>v1\<close>
  and then \<open>v2\<close>.
\<close>

theorem C1_set:
  assumes "wf_store s"
  shows "DataState_get (DataState_set B key v s) key = v
    \<and> take (length (observed s)) (observed (DataState_set B key v s)) = observed s
    \<and> invocations (emitted s (DataState_set B key v s)) =
        map (\<lambda>c. KeyCall c v) (key_subscribers s key) @ map (\<lambda>g. GlobalCall g key v) (globalSubscribers s)
    \<and> (c \<in> set (key_subscribers s key) \<longrightarrow>
         seen_by c (emitted s (DataState_set B key v2 (DataState_set B key v1 s))) = [v1, v2])"
proof -
  have d: "distinct (key_subscribers s key)"
  proof (cases "map_of (subscribers s) key")
    case None
    then show ?thesis by (simp add: key_subscribers_def Map_get_def)
  next
    case (Some r)
    then have "(key, r) \<in> set (subscribers s)" by (rule map_of_SomeD)
    with assms have "distinct (sets s r)" by (auto simp: wf_store_def list_all_iff)
    with Some show ?thesis by (simp add: key_subscribers_def Map_get_def)
  qed
  show ?thesis
    using set_get_same set_prefix set_invocations set_set_seen[OF d] by blast
qed

theorem C1_set_witness:
  "wf_store ex_store \<and> 2 \<in> set (key_subscribers ex_store ''k'')
   \<and> observed (DataState_set B_throwing ''k'' (Num 5) ex_store) =
       [KeyCall 1 (Num 5), ConsoleError (ErrSubscriber ''k''), KeyCall 2 (Num 5),
        GlobalCall 7 ''k'' (Num 5), ConsoleError ErrGlobalSubscriber, GlobalCall 8 ''k'' (Num 5)]
   \<and> seen_by 2 (emitted ex_store
        (DataState_set B_throwing ''k'' (Num 6) (DataState_set B_throwing ''k'' (Num 5) ex_store))) = [Num 5, Num 6]"
proof -
  have w: "wf_store ex_store" by (simp add: ex_store_eq wf_store_def)
  have m: "2 \<in> set (key_subscribers ex_store ''k'')"
    by (simp add: ex_store_eq key_subscribers_def Map_get_def)
  have o: "observed (DataState_set B_throwing ''k'' (Num 5) ex_store) =
       [KeyCall 1 (Num 5), ConsoleError (ErrSubscriber ''k''), KeyCall 2 (Num 5),
        GlobalCall 7 ''k'' (Num 5), ConsoleError ErrGlobalSubscriber, GlobalCall 8 ''k'' (Num 5)]"
    by (simp add: ex_store_eq DataState_set_def Let_def Map_get_def Map_set_def B_throwing_def)
  from C1_set[OF w, where B = B_throwing and key = "''k''" and c = 2 and ?v1.0 = "Num 5"
      and ?v2.0 = "Num 6"] w m o
  show ?thesis by simp
qed

text \<open>
  Claim C2.  \<^verbatim>\<open>subscribe(key, callback)\<close> makes the callback a member of the key's
  subscriber set.  When \<^verbatim>\<open>get(key)\<close> is not \<^verbatim>\<open>undefined\<close> the callback is called once,
  with that value, before \<^verbatim>\<open>subscribe\<close> returns; otherwise nothing is called.  The closure
  returned removes the callback from the set it was added to, whatever happened in
  between (state \<open>t\<close>), so the callback is no subscriber of the key while the key still has
  that set and is not called by a later \<^verbatim>\<open>set\<close>; calling the closure twice is calling it
  once; and when it empties the set, the key's entry of \<open>subscribers\<close> goes too.
\<close>

theorem C2_subscribe:
  assumes "DataState_subscribe B key c s = (h, s')"
  shows "c \<in> set (key_subscribers s' key)
    \<and> (DataState_get s key \<noteq> Undefined \<longrightarrow>
          invocations (emitted s s') = [KeyCall c (DataState_get s key)])
    \<and> (DataState_get s key = Undefined \<longrightarrow> emitted s s' = [])
    \<and> c \<notin> set (sets (cancel h t) (c_keySubscribers h))
    \<and> (Map_get (subscribers t) key = Some (c_keySubscribers h) \<longrightarrow>
          c \<notin> set (key_subscribers (cancel h t) key)
          \<and> seen_by c (emitted (cancel h t) (DataState_set B' key v (cancel h t))) = [])
    \<and> c \<notin> set (key_subscribers (cancel h s') key)
    \<and> cancel h (cancel h t) = cancel h t
    \<and> (set (sets t (c_keySubscribers h)) \<subseteq> {c} \<longrightarrow> \<not> Map_has (subscribers (cancel h t)) key)"
proof -
  from assms have h: "h = fst (DataState_subscribe B key c s)"
    and s': "s' = snd (DataState_subscribe B key c s)" by simp_all
  have hk: "c_key h = key" and hc: "c_callback h = c"
    and hs: "Map_get (subscribers s') key = Some (c_keySubscribers h)"
    unfolding h s' by (rule subscribe_handle)+
  have 1: "c \<in> set (key_subscribers s' key)" unfolding s' by (rule subscribe_registered)
  have 2: "DataState_get s key \<noteq> Undefined \<longrightarrow>
          invocations (emitted s s') = [KeyCall c (DataState_get s key)]"
    unfolding s' by (simp add: subscribe_emitted_value)
  have 3: "DataState_get s key = Undefined \<longrightarrow> emitted s s' = []"
    unfolding s' by (simp add: subscribe_emitted_none)
  have 4: "c \<notin> set (sets (cancel h t) (c_keySubscribers h))"
    using cancel_removes[of h t] by (simp add: hc)
  have 5: "c \<notin> set (key_subscribers (cancel h t') key)"
    if "Map_get (subscribers t') key = Some (c_keySubscribers h)" for t'
    using cancel_unregistered[of t' h] that by (simp add: hk hc)
  have 6: "seen_by c (emitted (cancel h t) (DataState_set B' key v (cancel h t))) = []"
    if "Map_get (subscribers t) key = Some (c_keySubscribers h)"
    using 5[OF that] by (rule set_seen_unregistered)
  have 7: "cancel h (cancel h t) = cancel h t" by (rule cancel_idem)
  have 8: "set (sets t (c_keySubscribers h)) \<subseteq> {c} \<longrightarrow> \<not> Map_has (subscribers (cancel h t)) key"
    using cancel_last[of t h] by (simp add: hk hc)
  show ?thesis using 1 2 3 4 5 5[OF hs] 6 7 8 by blast
qed

theorem C2_subscribe_witness:
  "DataState_get (DataState_set B_throwing ''k'' (Num 5) DataState_new) ''k'' \<noteq> Undefined
   \<and> invocations (emitted (DataState_set B_throwing ''k'' (Num 5) DataState_new)
        (snd (DataState_subscribe B_throwing ''k'' 3
               (DataState_set B_throwing ''k'' (Num 5) DataState_new)))) = [KeyCall 3 (Num 5)]
   \<and> DataState_get DataState_new ''k'' = Undefined
   \<and> emitted DataState_new (snd (DataState_subscribe B_throwing ''k'' 3 DataState_new)) = []
   \<and> Map_get (subscribers (snd (DataState_subscribe B_throwing ''k'' 3 DataState_new))) ''k''
       = Some (c_keySubscribers (fst (DataState_subscribe B_throwing ''k'' 3 DataState_new)))
   \<and> seen_by 3 (emitted
         (cancel (fst (DataState_subscribe B_throwing ''k'' 3 DataState_new))
            (snd (DataState_subscribe B_throwing ''k'' 3 DataState_new)))
         (DataState_set B_throwing ''k'' (Num 6)
            (cancel (fst (DataState_subscribe B_throwing ''k'' 3 DataState_new))
               (snd (DataState_subscribe B_throwing ''k'' 3 DataState_new))))) = []
   \<and> set (sets (snd (DataState_subscribe B_throwing ''k'' 3 DataState_new))
         (c_keySubscribers (fst (DataState_subscribe B_throwing ''k'' 3 DataState_new)))) \<subseteq> {3}
   \<and> \<not> Map_has (subscribers (cancel (fst (DataState_subscribe B_throwing ''k'' 3 DataState_new))
                     (snd (DataState_subscribe B_throwing ''k'' 3 DataState_new)))) ''k''"
proof -
  let ?s5 = "DataState_set B_throwing ''k'' (Num 5) DataState_new"
  let ?p = "DataState_subscribe B_throwing ''k'' 3 DataState_new"
  have g5: "DataState_get ?s5 ''k'' = Num 5" by (rule set_get_same)
  have g0: "DataState_get DataState_new ''k'' = Undefined"
    by (simp add: DataState_get_def DataState_new_def Map_get_def)
  have one: "set (sets (snd ?p) (c_keySubscribers (fst ?p))) \<subseteq> {3}"
    by (simp add: DataState_subscribe_def DataState_new_def Let_def Map_has_def Map_get_def
        Map_set_def Set_add_def)
  have cur: "Map_get (subscribers (snd ?p)) ''k'' = Some (c_keySubscribers (fst ?p))"
    by (simp add: DataState_subscribe_def DataState_new_def Let_def Map_has_def Map_get_def
        Map_set_def)
  note T5 = C2_subscribe[OF prod.collapse[symmetric], where B = B_throwing and key = "''k''"
      and c = 3 and s = ?s5 and t = "snd ?p" and B' = B_throwing and v = "Num 6"]
  have a: "invocations (emitted ?s5 (snd (DataState_subscribe B_throwing ''k'' 3 ?s5))) = [KeyCall 3 (Num 5)]"
    using T5 g5 by simp
  note T0 = C2_subscribe[OF prod.collapse[symmetric], where B = B_throwing and key = "''k''"
      and c = 3 and s = DataState_new and t = "snd ?p" and B' = B_throwing and v = "Num 6"]
  have b: "emitted DataState_new (snd ?p) = []" using T0 g0 by blast
  have c: "\<not> Map_has (subscribers (cancel (fst ?p) (snd ?p))) ''k''" using T0 one by blast
  have d: "seen_by 3 (emitted (cancel (fst ?p) (snd ?p))
             (DataState_set B_throwing ''k'' (Num 6) (cancel (fst ?p) (snd ?p)))) = []"
    using T0 cur by blast
  from a b c d g5 g0 one cur show ?thesis by simp
qed

text \<open>
  Claim C3.  After \<^verbatim>\<open>delete(key)\<close> the key has no entry (\<^verbatim>\<open>get\<close> answers
  \<^verbatim>\<open>undefined\<close>, \<^verbatim>\<open>keys()\<close> does not list it) and no subscriber set.  The callbacks
  called are the global subscribers, each with \<open>(key, undefined)\<close>; no per-key callback
  is called by the deletion, nor by a \<^verbatim>\<open>set\<close> of the key that follows it.
\<close>

theorem C3_delete:
  "DataState_get (DataState_delete B key s) key = Undefined
   \<and> key \<notin> set (DataState_keys (DataState_delete B key s))
   \<and> \<not> Map_has (subscribers (DataState_delete B key s)) key
   \<and> key_subscribers (DataState_delete B key s) key = []
   \<and> invocations (emitted s (DataState_delete B key s)) =
        map (\<lambda>g. GlobalCall g key Undefined) (globalSubscribers s)
   \<and> KeyCall c v \<notin> set (emitted s (DataState_delete B key s))
   \<and> seen_by c (emitted (DataState_delete B key s)
        (DataState_set B' key v' (DataState_delete B key s))) = []"
proof -
  have "KeyCall c v \<notin> set (emitted s (DataState_delete B key s))"
  proof
    assume "KeyCall c v \<in> set (emitted s (DataState_delete B key s))"
    then have "KeyCall c v \<in> set (invocations (emitted s (DataState_delete B key s)))"
      by (rule keycall_in_invocations)
    then show False by (auto simp: delete_invocations)
  qed
  moreover have "seen_by c (emitted (DataState_delete B key s)
        (DataState_set B' key v' (DataState_delete B key s))) = []"
    by (rule set_seen_unregistered) (simp add: delete_key_subscribers)
  ultimately show ?thesis
    using delete_get delete_keys delete_subscribers delete_key_subscribers delete_invocations
    by blast
qed

theorem C3_delete_witness:
  "observed (DataState_delete B_throwing ''k'' ex_store) =
     [GlobalCall 7 ''k'' Undefined, ConsoleError ErrGlobalSubscriber, GlobalCall 8 ''k'' Undefined]
   \<and> KeyCall 1 Undefined \<notin> set (emitted ex_store (DataState_delete B_throwing ''k'' ex_store))
   \<and> key_subscribers (DataState_delete B_throwing ''k'' ex_store) ''k'' = []"
proof -
  have o: "observed (DataState_delete B_throwing ''k'' ex_store) =
     [GlobalCall 7 ''k'' Undefined, ConsoleError ErrGlobalSubscriber, GlobalCall 8 ''k'' Undefined]"
    by (simp add: ex_store_eq DataState_delete_def Let_def Map_delete_def B_throwing_def)
  from C3_delete[where B = B_throwing and key = "''k''" and s = ex_store and c = 1
      and v = Undefined] o
  show ?thesis by simp
qed

text \<open>
  Claim C10.  After \<^verbatim>\<open>set(key, undefined)\<close> the key is listed by \<^verbatim>\<open>keys()\<close> and the
  global subscribers have been called with \<open>(key, undefined)\<close>, yet \<^verbatim>\<open>get(key)\<close>
  answers \<^verbatim>\<open>undefined\<close>, which is also its answer in a store that does not list the key,
  and a \<^verbatim>\<open>subscribe(key, cb)\<close> that follows calls nothing.
\<close>

theorem C10_undefined_value:
  "key \<in> set (DataState_keys (DataState_set B key Undefined s))
   \<and> invocations (emitted s (DataState_set B key Undefined s)) =
        map (\<lambda>c. KeyCall c Undefined) (key_subscribers s key)
        @ map (\<lambda>g. GlobalCall g key Undefined) (globalSubscribers s)
   \<and> DataState_get (DataState_set B key Undefined s) key = Undefined
   \<and> (key \<notin> set (DataState_keys s0) \<longrightarrow> DataState_get s0 key = Undefined)
   \<and> DataState_get DataState_new key = Undefined
   \<and> emitted (DataState_set B key Undefined s)
        (snd (DataState_subscribe B' key cb (DataState_set B key Undefined s))) = []"
proof -
  have "key \<notin> set (DataState_keys s0) \<longrightarrow> DataState_get s0 key = Undefined"
  proof
    assume "key \<notin> set (DataState_keys s0)"
    then have "map_of (data s0) key = None"
      by (simp add: DataState_keys_def Map_keys_def map_of_eq_None_iff)
    then show "DataState_get s0 key = Undefined"
      by (simp add: DataState_get_def Map_get_def)
  qed
  moreover have "DataState_get DataState_new key = Undefined"
    by (simp add: DataState_get_def DataState_new_def Map_get_def)
  moreover have "emitted (DataState_set B key Undefined s)
        (snd (DataState_subscribe B' key cb (DataState_set B key Undefined s))) = []"
    by (rule subscribe_emitted_none) (rule set_get_same)
  ultimately show ?thesis
    using set_keys[of B key Undefined s] set_invocations[of s B key Undefined]
      set_get_same[of B key Undefined s] by blast
qed

theorem C10_undefined_value_witness:
  "''k'' \<in> set (DataState_keys (DataState_set B_throwing ''k'' Undefined ex_store))
   \<and> ''k'' \<notin> set (DataState_keys ex_store)
   \<and> DataState_get ex_store ''k'' = DataState_get (DataState_set B_throwing ''k'' Undefined ex_store) ''k''
   \<and> invocations (emitted ex_store (DataState_set B_throwing ''k'' Undefined ex_store)) =
       [KeyCall 1 Undefined, KeyCall 2 Undefined, GlobalCall 7 ''k'' Undefined, GlobalCall 8 ''k'' Undefined]
   \<and> emitted (DataState_set B_throwing ''k'' Undefined ex_store)
        (snd (DataState_subscribe B_throwing ''k'' 3 (DataState_set B_throwing ''k'' Undefined ex_store))) = []"
proof -
  have k: "''k'' \<notin> set (DataState_keys ex_store)"
    by (simp add: ex_store_eq DataState_keys_def Map_keys_def)
  have ks: "key_subscribers ex_store ''k'' = [1, 2]" "globalSubscribers ex_store = [7, 8]"
    by (simp_all add: ex_store_eq key_subscribers_def Map_get_def)
  from C10_undefined_value[where key = "''k''" and B = B_throwing and s = ex_store
      and ?s0.0 = ex_store and B' = B_throwing and cb = 3] k ks
  show ?thesis by simp
qed

subsection \<open>A closure that outlives its set\<close>

text \<open>
  A closure of \<^verbatim>\<open>subscribe\<close> that is called after \<^verbatim>\<open>delete(key)\<close> and a new
  \<^verbatim>\<open>subscribe\<close> of the key finds its own set empty and removes the key's entry of
  \<open>subscribers\<close>, which by then holds the set of the new subscriber.
\<close>

lemma stale_cancel_removes_new_set:
  "key_subscribers
     (snd (DataState_subscribe B ''k'' 2
        (DataState_delete B ''k'' (snd (DataState_subscribe B ''k'' 1 DataState_new))))) ''k'' = [2]
   \<and> key_subscribers
     (cancel (fst (DataState_subscribe B ''k'' 1 DataState_new))
       (snd (DataState_subscribe B ''k'' 2
          (DataState_delete B ''k'' (snd (DataState_subscribe B ''k'' 1 DataState_new)))))) ''k'' = []"
  by (simp add: DataState_subscribe_def DataState_delete_def DataState_new_def cancel_def
      key_subscribers_def Map_has_def Map_get_def Map_set_def Map_delete_def Set_add_def
      Set_delete_def DataState_get_def Let_def)

section \<open>Properties of the routing layer\<close>

lemma notify_data_new:
  "\<exists>new. notify_data B v cs tr = tr @ new \<and> invocations new = map (\<lambda>c. DataCall c v) cs"
proof (induction cs arbitrary: tr)
  case Nil
  then show ?case by (simp add: invocations_def)
next
  case (Cons c cs)
  let ?tr' = "(if data_throws B tr c v
        then tr @ [DataCall c v, ConsoleError ErrDataCallback]
        else tr @ [DataCall c v])"
  from Cons.IH[of ?tr'] obtain new where
    n: "notify_data B v cs ?tr' = ?tr' @ new" "invocations new = map (\<lambda>c. DataCall c v) cs"
     by blast
  show ?case
  proof (cases "data_throws B tr c v")
    case True
    with n show ?thesis
      by (intro exI[of _ "[DataCall c v, ConsoleError ErrDataCallback] @ new"]) (auto simp: invocations_def)
  next
    case False
    with n show ?thesis
      by (intro exI[of _ "[DataCall c v] @ new"]) (auto simp: invocations_def)
  qed
qed

lemma notified_set [simp]: "notified (DataState_set B key v s) k w = notified s k w"
  by (simp add: notified_def)

lemma set_data: "data (DataState_set B key v s) = Map_set key v (data s)"
  by (simp add: DataState_set_def Let_def)

lemma fold_set_frame:
  "subscribers (fold (\<lambda>(key, v). DataState_set B key v) es s) = subscribers s
   \<and> sets (fold (\<lambda>(key, v). DataState_set B key v) es s) = sets s
   \<and> globalSubscribers (fold (\<lambda>(key, v). DataState_set B key v) es s) = globalSubscribers s
   \<and> next_ref (fold (\<lambda>(key, v). DataState_set B key v) es s) = next_ref s
   \<and> data (fold (\<lambda>(key, v). DataState_set B key v) es s) = fold (\<lambda>(key, v). Map_set key v) es (data s)"
proof (induction es arbitrary: s)
  case Nil
  show ?case by simp
next
  case (Cons kv es)
  obtain key v where kv: "kv = (key, v)" by (cases kv)
  show ?case using Cons.IH[of "DataState_set B key v s"] by (simp add: kv set_data)
qed

lemma notified_fold [simp]:
  "notified (fold (\<lambda>(key, v). DataState_set B key v) es s) k w = notified s k w"
  by (simp add: notified_def key_subscribers_def fold_set_frame split: option.split)

lemma fold_set_emitted:
  "\<exists>new. observed (fold (\<lambda>(key, v). DataState_set B key v) es s) = observed s @ new \<and>
     invocations new = concat (map (\<lambda>(key, v). notified s key v) es)"
proof (induction es arbitrary: s)
  case Nil
  then show ?case by (simp add: invocations_def)
next
  case (Cons kv es)
  obtain key v where kv: "kv = (key, v)" by (cases kv)
  obtain a where a: "observed (DataState_set B key v s) = observed s @ a"
     "invocations a = notified s key v"
    using set_emitted[of B key v s] unfolding notified_def by blast
  from Cons.IH[of "DataState_set B key v s"] obtain b where
    b: "observed (fold (\<lambda>(key, v). DataState_set B key v) es (DataState_set B key v s))
          = observed (DataState_set B key v s) @ b"
       "invocations b = concat (map (\<lambda>(k', v'). notified (DataState_set B key v s) k' v') es)"
    by blast
  have b2: "invocations b = concat (map (\<lambda>(key, v). notified s key v) es)"
    using b(2) by (simp only: notified_set)
  have "observed (fold (\<lambda>(key, v). DataState_set B key v) (kv # es) s) = observed s @ (a @ b)"
    by (simp add: kv b(1) a(1))
  moreover have "invocations (a @ b) = concat (map (\<lambda>(key, v). notified s key v) (kv # es))"
    by (simp add: kv a(2) b2)
  ultimately show ?case by blast
qed

lemma handle_try_throws: "checkout L d = Inl e \<Longrightarrow> handle_try B d L = (Some e, L)"
  by (simp add: handle_try_def)

lemma handle_throws:
  "checkout L d = Inl e \<Longrightarrow>
     handleAdapterData B d L = (None, console [ConsoleError ErrHandlingAdapterData] L)"
  by (simp add: handleAdapterData_def handle_try_throws)

lemma handle_try_ok:
  "checkout L d = Inr (p, k) \<Longrightarrow> fst (handle_try B d L) = None"
  by (simp add: handle_try_def Let_def)

lemma handle_ok:
  "checkout L d = Inr (p, k) \<Longrightarrow> handleAdapterData B d L = (None, snd (handle_try B d L))"
  by (simp add: handleAdapterData_def handle_try_def Let_def)

lemma handle_never_throws: "fst (handleAdapterData B d L) = None"
  by (simp add: handleAdapterData_def split: prod.split option.split)

lemma handle_try_frame:
  "adapters (snd (handle_try B d L)) = adapters L
   \<and> checkoutFunctions (snd (handle_try B d L)) = checkoutFunctions L
   \<and> dataCallbacks (snd (handle_try B d L)) = dataCallbacks L
   \<and> enableLogging (snd (handle_try B d L)) = enableLogging L"
  by (simp add: handle_try_def Let_def split: sum.split prod.split)

lemma console_frame [simp]:
  "adapters (console es L) = adapters L"
  "checkoutFunctions (console es L) = checkoutFunctions L"
  "dataCallbacks (console es L) = dataCallbacks L"
  "enableLogging (console es L) = enableLogging L"
  "data (dataState (console es L)) = data (dataState L)"
  "subscribers (dataState (console es L)) = subscribers (dataState L)"
  "sets (dataState (console es L)) = sets (dataState L)"
  "globalSubscribers (dataState (console es L)) = globalSubscribers (dataState L)"
  "observed (dataState (console es L)) = observed (dataState L) @ es"
  by (simp_all add: console_def)

lemma console_get [simp]: "DataState_get (dataState (console es L)) k = DataState_get (dataState L) k"
  by (simp add: DataState_get_def)

lemma handle_frame:
  "adapters (snd (handleAdapterData B d L)) = adapters L
   \<and> checkoutFunctions (snd (handleAdapterData B d L)) = checkoutFunctions L
   \<and> dataCallbacks (snd (handleAdapterData B d L)) = dataCallbacks L
   \<and> enableLogging (snd (handleAdapterData B d L)) = enableLogging L"
proof (cases "checkout L d")
  case (Inl e)
  then show ?thesis by (simp add: handle_throws)
next
  case (Inr pk)
  obtain p k where "pk = (p, k)" by (cases pk)
  with Inr show ?thesis by (simp add: handle_ok handle_try_frame)
qed

lemma checkout_cong: "checkoutFunctions L' = checkoutFunctions L \<Longrightarrow> checkout L' d = checkout L d"
  by (simp add: checkout_def)

lemma checkout_after_handle: "checkout (snd (handleAdapterData B d L)) d2 = checkout L d2"
  by (rule checkout_cong) (simp add: handle_frame)

lemma handle_try_data:
  assumes "checkout L d = Inr (p, k)"
  shows "data (dataState (snd (handle_try B d L))) =
           Map_set k (DataItem_val p)
             (fold (\<lambda>(key, v). Map_set key v) (stateUpdates_entries p) (data (dataState L)))"
  using assms by (simp add: handle_try_def Let_def set_data fold_set_frame)

lemma handle_try_observed:
  assumes "checkout L d = Inr (p, k)"
  shows "\<exists>new. observed (dataState (snd (handle_try B d L))) = observed (dataState L) @ new
     \<and> invocations new =
          concat (map (\<lambda>(key, v). notified (dataState L) key v) (stateUpdates_entries p))
          @ notified (dataState L) k (DataItem_val p)
          @ map (\<lambda>c. DataCall c (DataItem_val p)) (dataCallbacks L)"
proof -
  let ?s1 = "fold (\<lambda>(key, v). DataState_set B key v) (stateUpdates_entries p) (dataState L)"
  let ?s2 = "DataState_set B k (DataItem_val p) ?s1"
  obtain a where a: "observed ?s1 = observed (dataState L) @ a"
    "invocations a = concat (map (\<lambda>(key, v). notified (dataState L) key v) (stateUpdates_entries p))"
    using fold_set_emitted by blast
  obtain b where b: "observed ?s2 = observed ?s1 @ b"
    "invocations b = notified ?s1 k (DataItem_val p)"
    using set_emitted[of B k "DataItem_val p" ?s1] unfolding notified_def by blast
  have s2: "observed ?s2 = observed (dataState L) @ a @ b" by (simp add: b(1) a(1))
  obtain c where c: "notify_data B (DataItem_val p) (dataCallbacks L) (observed (dataState L) @ a @ b)
       = (observed (dataState L) @ a @ b) @ c"
    "invocations c = map (\<lambda>c. DataCall c (DataItem_val p)) (dataCallbacks L)"
    using notify_data_new by blast
  have "observed (dataState (snd (handle_try B d L))) = observed (dataState L) @ (a @ b @ c)"
    using assms by (simp add: handle_try_def Let_def s2 c(1))
  moreover have "invocations (a @ b @ c) =
          concat (map (\<lambda>(key, v). notified (dataState L) key v) (stateUpdates_entries p))
          @ notified (dataState L) k (DataItem_val p)
          @ map (\<lambda>c. DataCall c (DataItem_val p)) (dataCallbacks L)"
    by (simp add: a(2) b(2) c(2))
  ultimately show ?thesis by blast
qed

lemma handle_try_get:
  assumes "checkout L d = Inr (p, k)"
  shows "DataState_get (dataState (snd (handle_try B d L))) k = DataItem_val p"
  by (simp add: DataState_get_def handle_try_data[OF assms] Map_get_def Map_set_def update_conv')

lemma handle_get:
  assumes "checkout L d = Inr (p, k)"
  shows "DataState_get (dataState (snd (handleAdapterData B d L))) k = DataItem_val p"
  by (simp add: handle_ok[OF assms] handle_try_get[OF assms])

lemma checkout_default:
  "Map_get (checkoutFunctions L) (or_else (item_source d) []) = None \<Longrightarrow>
     checkout L d = Inr (d, or_else (item_source d) ''unknown'' @ ''_'' @ item_id d)"
  by (simp add: checkout_def generateStateKey_def)

lemma checkout_transform:
  "Map_get (checkoutFunctions L) (or_else (item_source d) []) = Some f \<Longrightarrow> f (item_data d) = Inr r \<Longrightarrow>
     checkout L d = Inr (d\<lparr> item_data := res_data r \<rparr>, res_key r)"
  by (simp add: checkout_def)

lemma checkout_transform_throws:
  "Map_get (checkoutFunctions L) (or_else (item_source d) []) = Some f \<Longrightarrow> f (item_data d) = Inl e \<Longrightarrow>
     checkout L d = Inl e"
  by (simp add: checkout_def)

lemma or_else_source:
  "src \<noteq> [] \<Longrightarrow> or_else (Some src) dflt = src"
  by (simp add: or_else_def)

lemma stateUpdates_map:
  "item_data p = Obj ps \<Longrightarrow> map_of ps ''stateUpdates'' = Some (Obj us) \<Longrightarrow> stateUpdates_entries p = us"
  by (simp add: stateUpdates_entries_def)

lemma fold_handle_frame:
  "checkoutFunctions (fold (\<lambda>d L. snd (handleAdapterData B d L)) ds L) = checkoutFunctions L"
  by (induction ds arbitrary: L) (simp_all add: handle_frame)

lemma emit_to_frame:
  "checkoutFunctions (emit_to B nm d ls L) = checkoutFunctions L"
proof (induction ls arbitrary: L)
  case Nil
  show ?case by simp
next
  case (Cons l ls)
  show ?case
  proof (cases l)
    case (LayerHandler n)
    obtain L' where h: "handleAdapterData B d L = (None, L')"
      using handle_never_throws[of B d L] by (cases "handleAdapterData B d L") auto
    have "checkoutFunctions L' = checkoutFunctions L"
      using handle_frame[of B d L] by (simp add: h)
    then show ?thesis using Cons.IH[of L']
      by (simp add: LayerHandler h)
  next
    case (UserListener n)
    then show ?thesis by (simp add: Cons.IH)
  qed
qed

lemma emit_to_routes:
  assumes "checkout L d = Inr (p, k)"
    and "(\<exists>n. LayerHandler n \<in> set ls) \<or> DataState_get (dataState L) k = DataItem_val p"
  shows "DataState_get (dataState (emit_to B nm d ls L)) k = DataItem_val p"
  using assms
proof (induction ls arbitrary: L)
  case Nil
  then show ?case by simp
next
  case (Cons l ls)
  show ?case
  proof (cases l)
    case (LayerHandler n)
    obtain L' where h: "handleAdapterData B d L = (None, L')"
      using handle_never_throws[of B d L] by (cases "handleAdapterData B d L") auto
    have c: "checkout L' d = Inr (p, k)"
      using Cons.prems(1) checkout_after_handle[of B d L d] by (simp add: h)
    have g: "DataState_get (dataState L') k = DataItem_val p"
      using handle_get[OF Cons.prems(1), of B] by (simp add: h)
    from Cons.IH[OF c] g have "DataState_get (dataState (emit_to B nm d ls L')) k = DataItem_val p"
      by blast
    then show ?thesis by (simp add: LayerHandler h)
  next
    case (UserListener n)
    let ?L' = "(if listener_throws B (observed (dataState L)) n (DataItem_val d)
        then console [ListenerCall n (DataItem_val d), ConsoleError (ErrAdapterDataCallback nm)] L
        else console [ListenerCall n (DataItem_val d)] L)"
    have c: "checkout ?L' d = Inr (p, k)"
      using Cons.prems(1) by (simp add: checkout_def)
    have "(\<exists>n. LayerHandler n \<in> set ls) \<or> DataState_get (dataState ?L') k = DataItem_val p"
      using Cons.prems(2) by (auto simp: UserListener)
    from Cons.IH[OF c this] show ?thesis by (simp add: UserListener)
  qed
qed

lemma addAdapter_duplicate:
  "Map_has (adapters (layer S)) (a_name (objs S a)) \<Longrightarrow>
     addAdapter a S = (Some (AdapterAlreadyExists (a_name (objs S a))), S)"
  by (simp add: addAdapter_def)

lemma addAdapter_names: "a_name (objs (snd (addAdapter a S)) x) = a_name (objs S x)"
  by (simp add: addAdapter_def Let_def BaseAdapter_onData_def)

lemma addAdapter_ok:
  assumes "addAdapter a S = (None, S')"
  shows "Map_get (adapters (layer S')) (a_name (objs S a)) = Some a"
    and "LayerHandler (next_closure S) \<in> set (a_dataCallbacks (objs S' a))"
    and "Map_has (adapters (layer S')) (a_name (objs S a))"
    and "checkoutFunctions (layer S') = checkoutFunctions (layer S)"
proof -
  from assms have n: "\<not> Map_has (adapters (layer S)) (a_name (objs S a))"
    by (auto simp: addAdapter_def split: if_splits)
  from assms n have S': "S' = snd (addAdapter a S)" by simp
  show "Map_get (adapters (layer S')) (a_name (objs S a)) = Some a"
    unfolding S' using n
    by (simp add: addAdapter_def Let_def Map_get_def Map_set_def update_conv')
  then show "Map_has (adapters (layer S')) (a_name (objs S a))"
    by (simp add: Map_has_def Map_get_def)
  show "LayerHandler (next_closure S) \<in> set (a_dataCallbacks (objs S' a))"
    unfolding S' using n
    by (simp add: addAdapter_def Let_def BaseAdapter_onData_def Set_add_def)
  show "checkoutFunctions (layer S') = checkoutFunctions (layer S)"
    unfolding S' using n
    by (simp add: addAdapter_def Let_def)
qed

lemma emitData_routes:
  assumes "checkout (layer S) d = Inr (p, k)" "LayerHandler n \<in> set (a_dataCallbacks (objs S a))"
  shows "DataState_get (dataState (layer (snd (emitData B a d S)))) k = DataItem_val p"
  using emit_to_routes[OF assms(1), of "a_dataCallbacks (objs S a)"] assms(2)
  by (auto simp: emitData_def)

lemma cs_append:
  "connect_settles lg nm (a @ b) st = connect_settles lg nm b (connect_settles lg nm a st)"
proof (induction a arbitrary: st)
  case Nil
  show ?case by simp
next
  case (Cons x a)
  obtain i out where x: "x = (i, out)" by (cases x)
  obtain p f tr where st: "st = (p, f, tr)" by (cases st)
  show ?case unfolding x st by (simp add: Cons.IH)
qed

lemma cs_first_kept: "fst (snd (connect_settles lg nm sched (p, Some e, tr))) = Some e"
proof (induction sched arbitrary: p tr)
  case Nil
  show ?case by simp
next
  case (Cons x sched)
  obtain i out where x: "x = (i, out)" by (cases x)
  show ?case unfolding x by (cases out) (simp_all add: Cons.IH)
qed

lemma cs_all_resolve:
  assumes "\<forall>x\<in>set pre. snd x = Resolves"
  shows "fst (snd (connect_settles lg nm pre (p, f, tr))) = f
       \<and> set (fst (connect_settles lg nm pre (p, f, tr))) = set p - fst ` set pre"
  using assms
proof (induction pre arbitrary: p tr)
  case Nil
  show ?case by simp
next
  case (Cons x pre)
  obtain i out where x: "x = (i, out)" by (cases x)
  from Cons.prems have out: "out = Resolves" and rest: "\<forall>x\<in>set pre. snd x = Resolves"
    by (auto simp: x)
  show ?case
  proof (cases "i \<in> set p")
    case True
    then show ?thesis using Cons.IH[OF rest, of "removeAll i p"]
      by (auto simp: x out)
  next
    case False
    then show ?thesis using Cons.IH[OF rest, of p tr]
      by (auto simp: x out)
  qed
qed

lemma is_console_simps [simp]:
  "is_console (ConsoleLog l)" "is_console (ConsoleError l)"
  "\<not> is_console (ConnectCalled a)" "\<not> is_console (DisconnectCalled a)"
  by (simp_all add: is_console_def)

lemma cs_trace:
  "\<exists>new. snd (snd (connect_settles lg nm sched (p, f, tr))) = tr @ new \<and> list_all is_console new"
proof (induction sched arbitrary: p f tr)
  case Nil
  show ?case by simp
next
  case (Cons x sched)
  obtain i out where x: "x = (i, out)" by (cases x)
  show ?case
  proof (cases "i \<in> set p")
    case False
    then show ?thesis using Cons.IH[of p f tr] by (simp add: x)
  next
    case True
    show ?thesis
    proof (cases out)
      case Resolves
      show ?thesis
      proof (cases lg)
        case True
        from Cons.IH[of "removeAll i p" f "tr @ [ConsoleLog (ConnectedAdapter (nm ! i))]"]
        obtain new where "snd (snd (connect_settles lg nm sched
            (removeAll i p, f, tr @ [ConsoleLog (ConnectedAdapter (nm ! i))])))
            = (tr @ [ConsoleLog (ConnectedAdapter (nm ! i))]) @ new" "list_all is_console new"
          by blast
        then show ?thesis using \<open>i \<in> set p\<close> True
          by (intro exI[of _ "ConsoleLog (ConnectedAdapter (nm ! i)) # new"])
             (simp add: x Resolves)
      next
        case False
        then show ?thesis using Cons.IH[of "removeAll i p" f tr] \<open>i \<in> set p\<close>
          by (simp add: x Resolves)
      qed
    next
      case (Rejects e)
      let ?f = "(case f of None \<Rightarrow> Some e | Some e' \<Rightarrow> Some e')"
      from Cons.IH[of "removeAll i p" ?f "tr @ [ConsoleError (FailedToConnect (nm ! i))]"]
      obtain new where "snd (snd (connect_settles lg nm sched
            (removeAll i p, ?f, tr @ [ConsoleError (FailedToConnect (nm ! i))])))
            = (tr @ [ConsoleError (FailedToConnect (nm ! i))]) @ new" "list_all is_console new"
        by blast
      then show ?thesis using \<open>i \<in> set p\<close>
        by (intro exI[of _ "ConsoleError (FailedToConnect (nm ! i)) # new"])
           (simp add: x Rejects)
    qed
  qed
qed

lemma ds_pending:
  "set (fst (disconnect_settles lg nm sched (p, tr))) = set p - fst ` set sched"
proof (induction sched arbitrary: p tr)
  case Nil
  show ?case by simp
next
  case (Cons x sched)
  obtain i out where x: "x = (i, out)" by (cases x)
  show ?case
  proof (cases "i \<in> set p")
    case True
    then show ?thesis
      by (cases out) (auto simp: x Cons.IH)
  next
    case False
    then show ?thesis by (auto simp: x Cons.IH)
  qed
qed

lemma ds_trace:
  "\<exists>new. snd (disconnect_settles lg nm sched (p, tr)) = tr @ new \<and> list_all is_console new"
proof (induction sched arbitrary: p tr)
  case Nil
  show ?case by simp
next
  case (Cons x sched)
  obtain i out where x: "x = (i, out)" by (cases x)
  show ?case
  proof (cases "i \<in> set p")
    case False
    then show ?thesis using Cons.IH[of p tr] by (simp add: x)
  next
    case True
    show ?thesis
    proof (cases out)
      case Resolves
      show ?thesis
      proof (cases lg)
        case True
        from Cons.IH[of "removeAll i p" "tr @ [ConsoleLog (DisconnectedAdapter (nm ! i))]"]
        obtain new where "snd (disconnect_settles lg nm sched
            (removeAll i p, tr @ [ConsoleLog (DisconnectedAdapter (nm ! i))]))
            = (tr @ [ConsoleLog (DisconnectedAdapter (nm ! i))]) @ new" "list_all is_console new"
          by blast
        then show ?thesis using \<open>i \<in> set p\<close> True
          by (intro exI[of _ "ConsoleLog (DisconnectedAdapter (nm ! i)) # new"])
             (simp add: x Resolves)
      next
        case False
        then show ?thesis using Cons.IH[of "removeAll i p" tr] \<open>i \<in> set p\<close>
          by (simp add: x Resolves)
      qed
    next
      case (Rejects e)
      from Cons.IH[of "removeAll i p" "tr @ [ConsoleError (FailedToDisconnect (nm ! i))]"]
      obtain new where "snd (disconnect_settles lg nm sched
            (removeAll i p, tr @ [ConsoleError (FailedToDisconnect (nm ! i))]))
            = (tr @ [ConsoleError (FailedToDisconnect (nm ! i))]) @ new" "list_all is_console new"
        by blast
      then show ?thesis using \<open>i \<in> set p\<close>
        by (intro exI[of _ "ConsoleError (FailedToDisconnect (nm ! i)) # new"])
           (simp add: x Rejects)
    qed
  qed
qed

lemma connectAll_result:
  "fst (connectAll sched L) =
     Promise_all (fst (connect_settles (enableLogging L) (map fst (adapters L)) sched
                    ([0..<length (adapters L)], None, map (\<lambda>(name, adapter). ConnectCalled adapter) (adapters L))))
       (fst (snd (connect_settles (enableLogging L) (map fst (adapters L)) sched
                    ([0..<length (adapters L)], None, map (\<lambda>(name, adapter). ConnectCalled adapter) (adapters L)))))"
  by (simp add: connectAll_def Let_def split: prod.split)

lemma connectAll_observed:
  "observed (dataState (snd (connectAll sched L))) = observed (dataState L) @
     snd (snd (connect_settles (enableLogging L) (map fst (adapters L)) sched
                    ([0..<length (adapters L)], None, map (\<lambda>(name, adapter). ConnectCalled adapter) (adapters L))))"
  by (simp add: connectAll_def Let_def split: prod.split)

lemma connectAll_fail_fast:
  assumes "sched = pre @ (i, Rejects e) # post" "i < length (adapters L)" "i \<notin> fst ` set pre"
    "\<forall>x\<in>set pre. snd x = Resolves"
  shows "fst (connectAll sched L) = Rejected e"
proof -
  let ?lg = "enableLogging L" and ?nm = "map fst (adapters L)"
  let ?st0 = "([0..<length (adapters L)], None, map (\<lambda>(name, adapter). ConnectCalled adapter) (adapters L))"
  obtain p1 f1 tr1 where s1: "connect_settles ?lg ?nm pre ?st0 = (p1, f1, tr1)"
    by (cases "connect_settles ?lg ?nm pre ?st0") auto
  from cs_all_resolve[OF assms(4), where lg = ?lg and nm = ?nm and p = "[0..<length (adapters L)]"
      and f = None and tr = "map (\<lambda>(name, adapter). ConnectCalled adapter) (adapters L)"] s1
  have f1: "f1 = None" and p1: "set p1 = set [0..<length (adapters L)] - fst ` set pre" by simp_all
  from p1 assms(2,3) have ip: "i \<in> set p1" by simp
  have "connect_settles ?lg ?nm sched ?st0 =
        connect_settles ?lg ?nm post (removeAll i p1, Some e, tr1 @ [ConsoleError (FailedToConnect (?nm ! i))])"
    unfolding assms(1) cs_append s1 using ip f1 by simp
  then have "fst (snd (connect_settles ?lg ?nm sched ?st0)) = Some e"
    by (simp add: cs_first_kept)
  then show ?thesis unfolding connectAll_result by (simp add: Promise_all_def)
qed

lemma connectAll_all_resolve:
  assumes "\<forall>x\<in>set sched. snd x = Resolves"
  shows "fst (connectAll sched L) =
     (if {..<length (adapters L)} \<subseteq> fst ` set sched then Fulfilled else Pending)"
proof -
  let ?lg = "enableLogging L" and ?nm = "map fst (adapters L)"
  let ?tr0 = "map (\<lambda>(name, adapter). ConnectCalled adapter) (adapters L)"
  from cs_all_resolve[OF assms, where lg = ?lg and nm = ?nm and p = "[0..<length (adapters L)]"
      and f = None and tr = ?tr0]
  have f: "fst (snd (connect_settles ?lg ?nm sched ([0..<length (adapters L)], None, ?tr0))) = None"
    and p: "set (fst (connect_settles ?lg ?nm sched ([0..<length (adapters L)], None, ?tr0)))
              = set [0..<length (adapters L)] - fst ` set sched" by simp_all
  have "(fst (connect_settles ?lg ?nm sched ([0..<length (adapters L)], None, ?tr0)) = [])
        = ({..<length (adapters L)} \<subseteq> fst ` set sched)"
    using p by (auto simp: set_empty[symmetric] simp del: set_empty)
  then show ?thesis unfolding connectAll_result f by (simp add: Promise_all_def)
qed

lemma connectAll_calls:
  "\<exists>rest. emitted (dataState L) (dataState (snd (connectAll sched L))) =
     map (\<lambda>(name, adapter). ConnectCalled adapter) (adapters L) @ rest \<and> list_all is_console rest"
  unfolding connectAll_observed emitted_def
  using cs_trace[of "enableLogging L" "map fst (adapters L)" sched "[0..<length (adapters L)]" None
      "map (\<lambda>(name, adapter). ConnectCalled adapter) (adapters L)"]
  by auto

lemma disconnectAll_result:
  "fst (disconnectAll sched L) =
     Promise_allSettled (fst (disconnect_settles (enableLogging L) (map fst (adapters L)) sched
                    ([0..<length (adapters L)], map (\<lambda>(name, adapter). DisconnectCalled adapter) (adapters L))))"
  by (simp add: disconnectAll_def Let_def split: prod.split)

lemma disconnectAll_observed:
  "observed (dataState (snd (disconnectAll sched L))) = observed (dataState L) @
     snd (disconnect_settles (enableLogging L) (map fst (adapters L)) sched
                    ([0..<length (adapters L)], map (\<lambda>(name, adapter). DisconnectCalled adapter) (adapters L)))"
  by (simp add: disconnectAll_def Let_def split: prod.split)

lemma disconnectAll_never_rejects: "fst (disconnectAll sched L) \<noteq> Rejected e"
  by (simp add: disconnectAll_result Promise_allSettled_def)

lemma disconnectAll_fulfils:
  "fst (disconnectAll sched L) =
     (if {..<length (adapters L)} \<subseteq> fst ` set sched then Fulfilled else Pending)"
proof -
  let ?st = "disconnect_settles (enableLogging L) (map fst (adapters L)) sched
                    ([0..<length (adapters L)], map (\<lambda>(name, adapter). DisconnectCalled adapter) (adapters L))"
  have "set (fst ?st) = set [0..<length (adapters L)] - fst ` set sched" by (rule ds_pending)
  then have "(fst ?st = []) = ({..<length (adapters L)} \<subseteq> fst ` set sched)"
    by (auto simp: set_empty[symmetric] simp del: set_empty)
  then show ?thesis unfolding disconnectAll_result by (simp add: Promise_allSettled_def)
qed

lemma disconnectAll_calls:
  "\<exists>rest. emitted (dataState L) (dataState (snd (disconnectAll sched L))) =
     map (\<lambda>(name, adapter). DisconnectCalled adapter) (adapters L) @ rest \<and> list_all is_console rest"
  unfolding disconnectAll_observed emitted_def
  using ds_trace[of "enableLogging L" "map fst (adapters L)" sched "[0..<length (adapters L)]"
      "map (\<lambda>(name, adapter). DisconnectCalled adapter) (adapters L)"]
  by auto

text \<open>
  Claim C4, as the code has it.  Without a checkout function for the source the payload is
  kept and the key is \<^verbatim>\<open><source>_<id>\<close>, where a missing or empty source reads
  \<^verbatim>\<open>unknown\<close>; a checkout function registered for the source (for the empty name,
  when the envelope has no source) that returns gives the payload and the key.  The store
  then holds the pairs of the payload's \<^verbatim>\<open>stateUpdates\<close> and, written last, the
  envelope under the key; each of these writes made its own notifications, in this order,
  before the data callbacks of the layer were called.
\<close>

theorem C4_routing:
  "(Map_get (checkoutFunctions L) (or_else (item_source d) []) = None \<longrightarrow>
      checkout L d = Inr (d, or_else (item_source d) ''unknown'' @ ''_'' @ item_id d))
   \<and> (src \<noteq> [] \<longrightarrow> or_else (Some src) ''unknown'' = src \<and> or_else (Some src) [] = src)
   \<and> or_else None ''unknown'' = ''unknown'' \<and> or_else (Some []) ''unknown'' = ''unknown''
   \<and> (Map_get (checkoutFunctions L) (or_else (item_source d) []) = Some f \<and> f (item_data d) = Inr r \<longrightarrow>
      checkout L d = Inr (d\<lparr> item_data := res_data r \<rparr>, res_key r))
   \<and> (checkout L d = Inr (p, k) \<longrightarrow>
        data (dataState (snd (handleAdapterData B d L))) =
          Map_set k (DataItem_val p)
            (fold (\<lambda>(key, v). Map_set key v) (stateUpdates_entries p) (data (dataState L)))
      \<and> DataState_get (dataState (snd (handleAdapterData B d L))) k = DataItem_val p
      \<and> invocations (emitted (dataState L) (dataState (snd (handleAdapterData B d L)))) =
          concat (map (\<lambda>(key, v). notified (dataState L) key v) (stateUpdates_entries p))
          @ notified (dataState L) k (DataItem_val p)
          @ map (\<lambda>c. DataCall c (DataItem_val p)) (dataCallbacks L))
   \<and> (item_data p = Obj ps \<and> map_of ps ''stateUpdates'' = Some (Obj us) \<longrightarrow>
        stateUpdates_entries p = us)"
proof -
  have inv: "invocations (emitted (dataState L) (dataState (snd (handleAdapterData B d L)))) =
          concat (map (\<lambda>(key, v). notified (dataState L) key v) (stateUpdates_entries p))
          @ notified (dataState L) k (DataItem_val p)
          @ map (\<lambda>c. DataCall c (DataItem_val p)) (dataCallbacks L)"
    if c: "checkout L d = Inr (p, k)"
    using handle_try_observed[OF c, of B] by (auto simp: handle_ok[OF c] emitted_def)
  have dat: "data (dataState (snd (handleAdapterData B d L))) =
          Map_set k (DataItem_val p)
            (fold (\<lambda>(key, v). Map_set key v) (stateUpdates_entries p) (data (dataState L)))"
    if c: "checkout L d = Inr (p, k)"
    by (simp add: handle_ok[OF c] handle_try_data[OF c])
  show ?thesis
    using checkout_default[of L d] checkout_transform[of L d f r] or_else_source[of src]
      handle_get[of L d p k B] inv dat stateUpdates_map[of p ps us]
    by (simp add: or_else_def)
qed

text \<open>
  Claim C4 as stated fails for an envelope whose source is the empty string: the entry
  is written under \<^verbatim>\<open>unknown_7\<close>, and nothing under \<^verbatim>\<open>_7\<close>.
\<close>

theorem C4_default_key_counterexample:
  "Map_get (checkoutFunctions (DataAdapterLayer_new True)) (or_else (item_source ex_unnamed) []) = None
   \<and> item_source ex_unnamed = Some [] \<and> item_id ex_unnamed = ''7''
   \<and> DataState_keys (dataState (snd (handleAdapterData B_throwing ex_unnamed (DataAdapterLayer_new True))))
       = [''unknown_7'']
   \<and> DataState_get (dataState (snd (handleAdapterData B_throwing ex_unnamed (DataAdapterLayer_new True))))
       ([] @ ''_'' @ ''7'') = Undefined"
  by (simp add: handleAdapterData_def handle_try_def checkout_def generateStateKey_def or_else_def
      ex_unnamed_def DataAdapterLayer_new_def DataState_new_def Map_get_def Let_def
      stateUpdates_entries_def DataState_set_def Map_set_def DataState_keys_def Map_keys_def
      DataState_get_def)

lemma ex_layer_eq:
  "ex_layer = \<lparr> adapters = [], dataState = ex_store, enableLogging = True, checkoutFunctions = [],
      dataCallbacks = [4] \<rparr>"
  by (simp add: ex_layer_def DataAdapterLayer_onData_def DataAdapterLayer_new_def Set_add_def)

theorem C4_routing_witness:
  "checkout ex_layer ex_item = Inr (ex_item, ''sensor_e1'')
   \<and> or_else (Some ''sensor'') ''unknown'' = ''sensor''
   \<and> checkout (setCheckoutFunction ''sensor'' ex_transform ex_layer) ex_item =
        Inr (ex_item\<lparr> item_data := Obj [(''temp'', Num 30), (''processed'', Bool True)] \<rparr>, ''sensor-S1'')
   \<and> DataState_keys (dataState (snd (handleAdapterData B_throwing ex_item ex_layer))) =
        [''a'', ''b'', ''sensor_e1'']
   \<and> invocations (emitted (dataState ex_layer) (dataState (snd (handleAdapterData B_throwing ex_item ex_layer)))) =
        [GlobalCall 7 ''a'' (Num 1), GlobalCall 8 ''a'' (Num 1),
         GlobalCall 7 ''b'' (Num 2), GlobalCall 8 ''b'' (Num 2),
         GlobalCall 7 ''sensor_e1'' (DataItem_val ex_item), GlobalCall 8 ''sensor_e1'' (DataItem_val ex_item),
         DataCall 4 (DataItem_val ex_item)]"
proof -
  let ?L2 = "setCheckoutFunction ''sensor'' ex_transform ex_layer"
  have n: "Map_get (checkoutFunctions ex_layer) (or_else (item_source ex_item) []) = None"
    by (simp add: ex_layer_eq Map_get_def)
  have s: "Map_get (checkoutFunctions ?L2) (or_else (item_source ex_item) []) = Some ex_transform"
    by (simp add: ex_layer_eq setCheckoutFunction_def Map_get_def Map_set_def or_else_def ex_item_def)
  have t: "ex_transform (item_data ex_item) =
      Inr \<lparr> res_key = ''sensor-S1'', res_data = Obj [(''temp'', Num 30), (''processed'', Bool True)] \<rparr>"
    by (simp add: ex_transform_def)
  have c1: "checkout ex_layer ex_item = Inr (ex_item, ''sensor_e1'')"
    using C4_routing[where L = ex_layer and d = ex_item] n
    by (simp add: or_else_def ex_item_def)
  have c2: "checkout ?L2 ex_item =
        Inr (ex_item\<lparr> item_data := Obj [(''temp'', Num 30), (''processed'', Bool True)] \<rparr>, ''sensor-S1'')"
    using C4_routing[where L = ?L2 and d = ex_item and f = ex_transform
        and r = "\<lparr> res_key = ''sensor-S1'', res_data = Obj [(''temp'', Num 30), (''processed'', Bool True)] \<rparr>"]
      s t by simp
  have e: "stateUpdates_entries ex_item = [(''a'', Num 1), (''b'', Num 2)]"
    using C4_routing[where p = ex_item
        and ps = "[(''temp'', Num 30), (''stateUpdates'', Obj [(''a'', Num 1), (''b'', Num 2)])]"
        and us = "[(''a'', Num 1), (''b'', Num 2)]"]
    by (simp add: ex_item_def)
  have ks: "\<And>key. key_subscribers ex_store key = (if key = ''k'' then [1, 2] else [])"
    "globalSubscribers ex_store = [7, 8]" "data ex_store = []"
    by (simp_all add: ex_store_eq key_subscribers_def Map_get_def)
  from C4_routing[where L = ex_layer and d = ex_item and p = ex_item and k = "''sensor_e1''"
      and B = B_throwing] c1
  have "data (dataState (snd (handleAdapterData B_throwing ex_item ex_layer))) =
          Map_set ''sensor_e1'' (DataItem_val ex_item)
            (fold (\<lambda>(key, v). Map_set key v) (stateUpdates_entries ex_item) (data (dataState ex_layer)))"
    and "invocations (emitted (dataState ex_layer) (dataState (snd (handleAdapterData B_throwing ex_item ex_layer)))) =
          concat (map (\<lambda>(key, v). notified (dataState ex_layer) key v) (stateUpdates_entries ex_item))
          @ notified (dataState ex_layer) ''sensor_e1'' (DataItem_val ex_item)
          @ map (\<lambda>c. DataCall c (DataItem_val ex_item)) (dataCallbacks ex_layer)"
    by simp_all
  then have "DataState_keys (dataState (snd (handleAdapterData B_throwing ex_item ex_layer))) =
        [''a'', ''b'', ''sensor_e1'']"
    and "invocations (emitted (dataState ex_layer) (dataState (snd (handleAdapterData B_throwing ex_item ex_layer)))) =
        [GlobalCall 7 ''a'' (Num 1), GlobalCall 8 ''a'' (Num 1),
         GlobalCall 7 ''b'' (Num 2), GlobalCall 8 ''b'' (Num 2),
         GlobalCall 7 ''sensor_e1'' (DataItem_val ex_item), GlobalCall 8 ''sensor_e1'' (DataItem_val ex_item),
         DataCall 4 (DataItem_val ex_item)]"
    by (simp_all add: e ks notified_def ex_layer_eq DataState_keys_def Map_keys_def Map_set_def)
  moreover have "or_else (Some ''sensor'') ''unknown'' = ''sensor''"
    using C4_routing[where src = "''sensor''"] by simp
  ultimately show ?thesis using c1 c2 by simp
qed

text \<open>
  Claim C5.  \<^verbatim>\<open>handleAdapterData\<close> never throws, and neither does \<^verbatim>\<open>emitData\<close>
  of the adapter.  When the checkout function throws, the layer is left as it was, with
  one more line on the console.  Whatever emissions \<open>ds\<close> were handled before, the next
  one is processed: its envelope is in the store under its key.
\<close>

theorem C5_handling_contains_exceptions:
  "fst (handleAdapterData B d L) = None
   \<and> fst (emitData B a d S) = None
   \<and> (Map_get (checkoutFunctions L) (or_else (item_source d) []) = Some f \<and> f (item_data d) = Inl e
        \<longrightarrow> checkout L d = Inl e)
   \<and> (checkout L d = Inl e \<longrightarrow>
        snd (handleAdapterData B d L) = console [ConsoleError ErrHandlingAdapterData] L)
   \<and> (checkout L d2 = Inr (p2, k2) \<longrightarrow>
        DataState_get (dataState (snd (handleAdapterData B d2
           (fold (\<lambda>d L. snd (handleAdapterData B d L)) ds L)))) k2 = DataItem_val p2)"
proof -
  have "DataState_get (dataState (snd (handleAdapterData B d2
           (fold (\<lambda>d L. snd (handleAdapterData B d L)) ds L)))) k2 = DataItem_val p2"
    if c: "checkout L d2 = Inr (p2, k2)"
  proof -
    have "checkout (fold (\<lambda>d L. snd (handleAdapterData B d L)) ds L) d2 = checkout L d2"
      by (rule checkout_cong) (rule fold_handle_frame)
    with c show ?thesis by (simp add: handle_get)
  qed
  then show ?thesis
    using handle_never_throws[of B d L] checkout_transform_throws[of L d f e] handle_throws[of L d e B]
    by (simp add: emitData_def)
qed

theorem C5_handling_contains_exceptions_witness:
  "checkout (setCheckoutFunction ''sensor'' throwing_transform ex_layer) ex_item = Inl (Thrown (Str ''boom''))
   \<and> handleAdapterData B_throwing ex_item (setCheckoutFunction ''sensor'' throwing_transform ex_layer) =
       (None, console [ConsoleError ErrHandlingAdapterData]
                (setCheckoutFunction ''sensor'' throwing_transform ex_layer))
   \<and> checkout (setCheckoutFunction ''sensor'' throwing_transform ex_layer) ex_unnamed = Inr (ex_unnamed, ''unknown_7'')
   \<and> DataState_get (dataState (snd (handleAdapterData B_throwing ex_unnamed
         (fold (\<lambda>d L. snd (handleAdapterData B_throwing d L)) [ex_item, ex_item]
            (setCheckoutFunction ''sensor'' throwing_transform ex_layer))))) ''unknown_7''
       = DataItem_val ex_unnamed"
proof -
  let ?L = "setCheckoutFunction ''sensor'' throwing_transform ex_layer"
  have s: "Map_get (checkoutFunctions ?L) (or_else (item_source ex_item) []) = Some throwing_transform"
    by (simp add: ex_layer_eq setCheckoutFunction_def Map_get_def Map_set_def or_else_def ex_item_def)
  have t: "throwing_transform (item_data ex_item) = Inl (Thrown (Str ''boom''))"
    by (simp add: throwing_transform_def)
  have c: "checkout ?L ex_item = Inl (Thrown (Str ''boom''))"
    using C5_handling_contains_exceptions[where L = ?L and d = ex_item and f = throwing_transform
        and e = "Thrown (Str ''boom'')"] s t by simp
  have c2: "checkout ?L ex_unnamed = Inr (ex_unnamed, ''unknown_7'')"
    by (simp add: checkout_def ex_layer_eq setCheckoutFunction_def Map_get_def Map_set_def
        or_else_def ex_unnamed_def generateStateKey_def)
  note T = C5_handling_contains_exceptions[where L = ?L and d = ex_item and B = B_throwing
        and e = "Thrown (Str ''boom'')" and ?d2.0 = ex_unnamed and ?p2.0 = ex_unnamed
        and ?k2.0 = "''unknown_7''" and ds = "[ex_item, ex_item]" and a = 0 and S = ex_system
        and f = throwing_transform]
  have p0: "fst (handleAdapterData B_throwing ex_item ?L) = None" using T by blast
  have p1: "snd (handleAdapterData B_throwing ex_item ?L)
              = console [ConsoleError ErrHandlingAdapterData] ?L" using T c by blast
  have p2: "DataState_get (dataState (snd (handleAdapterData B_throwing ex_unnamed
         (fold (\<lambda>d L. snd (handleAdapterData B_throwing d L)) [ex_item, ex_item] ?L)))) ''unknown_7''
       = DataItem_val ex_unnamed" using T c2 by blast
  have h: "handleAdapterData B_throwing ex_item ?L
             = (None, console [ConsoleError ErrHandlingAdapterData] ?L)"
    by (rule prod_eqI) (simp_all add: p0 p1)
  from c h c2 p2 show ?thesis by blast
qed

text \<open>
  Claim C6.  \<^verbatim>\<open>addAdapter\<close> with an adapter whose name is registered throws and leaves
  the whole state as it was.  So when a second adapter carries the name of one added
  before, the first is still the one registered under the name, and what it emits is
  routed into the store.
\<close>

theorem C6_duplicate_name:
  "(Map_has (adapters (layer S)) (a_name (objs S a)) \<longrightarrow>
      addAdapter a S = (Some (AdapterAlreadyExists (a_name (objs S a))), S))
   \<and> (addAdapter a1 S0 = (None, S1) \<and> a_name (objs S0 a2) = a_name (objs S0 a1) \<longrightarrow>
        addAdapter a2 S1 = (Some (AdapterAlreadyExists (a_name (objs S0 a1))), S1)
      \<and> Map_get (adapters (layer (snd (addAdapter a2 S1)))) (a_name (objs S0 a1)) = Some a1
      \<and> (checkout (layer S1) d = Inr (p, k) \<longrightarrow>
           DataState_get (dataState (layer (snd (emitData B a1 d (snd (addAdapter a2 S1)))))) k
             = DataItem_val p))"
proof -
  have second: "addAdapter a2 S1 = (Some (AdapterAlreadyExists (a_name (objs S0 a1))), S1)
      \<and> Map_get (adapters (layer (snd (addAdapter a2 S1)))) (a_name (objs S0 a1)) = Some a1
      \<and> (checkout (layer S1) d = Inr (p, k) \<longrightarrow>
           DataState_get (dataState (layer (snd (emitData B a1 d (snd (addAdapter a2 S1)))))) k
             = DataItem_val p)"
    if ok: "addAdapter a1 S0 = (None, S1)" and nm: "a_name (objs S0 a2) = a_name (objs S0 a1)"
  proof -
    from ok have S1: "S1 = snd (addAdapter a1 S0)" by simp
    have n2: "a_name (objs S1 a2) = a_name (objs S0 a1)"
      unfolding S1 by (simp add: addAdapter_names nm)
    have has: "Map_has (adapters (layer S1)) (a_name (objs S1 a2))"
      using addAdapter_ok(3)[OF ok] by (simp add: n2)
    have dup: "addAdapter a2 S1 = (Some (AdapterAlreadyExists (a_name (objs S0 a1))), S1)"
      using addAdapter_duplicate[OF has] by (simp add: n2)
    have reg: "Map_get (adapters (layer S1)) (a_name (objs S0 a1)) = Some a1"
      by (rule addAdapter_ok(1)[OF ok])
    have "DataState_get (dataState (layer (snd (emitData B a1 d S1)))) k = DataItem_val p"
      if "checkout (layer S1) d = Inr (p, k)"
      using that addAdapter_ok(2)[OF ok] by (rule emitData_routes)
    with dup reg show ?thesis by simp
  qed
  show ?thesis using addAdapter_duplicate[of S a] second by blast
qed

lemma ex_system_add:
  "addAdapter 0 ex_system = (None,
     \<lparr> layer = \<lparr> adapters = [(''sensor'', 0)],
          dataState = DataState_new\<lparr> observed := [ConsoleLog (AddedAdapter ''sensor'')] \<rparr>,
          enableLogging = True, checkoutFunctions = [], dataCallbacks = [] \<rparr>,
       objs = (\<lambda>r. \<lparr> a_name = ''sensor'', a_dataCallbacks = [] \<rparr>)
                (0 := \<lparr> a_name = ''sensor'', a_dataCallbacks = [LayerHandler 0] \<rparr>),
       next_closure = 1 \<rparr>)"
  by (simp add: addAdapter_def ex_system_def DataAdapterLayer_new_def Map_has_def Map_set_def
      Let_def BaseAdapter_onData_def Set_add_def console_def DataState_new_def)

theorem C6_duplicate_name_witness:
  "fst (addAdapter 0 ex_system) = None
   \<and> Map_has (adapters (layer (snd (addAdapter 0 ex_system))))
        (a_name (objs (snd (addAdapter 0 ex_system)) 1))
   \<and> fst (addAdapter 1 (snd (addAdapter 0 ex_system))) = Some (AdapterAlreadyExists ''sensor'')
   \<and> snd (addAdapter 1 (snd (addAdapter 0 ex_system))) = snd (addAdapter 0 ex_system)
   \<and> Map_get (adapters (layer (snd (addAdapter 1 (snd (addAdapter 0 ex_system)))))) ''sensor'' = Some 0
   \<and> DataState_get (dataState (layer (snd (emitData B_throwing 0 ex_item
         (snd (addAdapter 1 (snd (addAdapter 0 ex_system)))))))) ''sensor_e1'' = DataItem_val ex_item"
proof -
  let ?S1 = "snd (addAdapter 0 ex_system)"
  have ok: "addAdapter 0 ex_system = (None, ?S1)" by (simp add: ex_system_add)
  have nm: "a_name (objs ex_system 1) = a_name (objs ex_system 0)" "a_name (objs ex_system 0) = ''sensor''"
    by (simp_all add: ex_system_def)
  have c: "checkout (layer ?S1) ex_item = Inr (ex_item, ''sensor_e1'')"
    by (simp add: ex_system_add checkout_def Map_get_def or_else_def ex_item_def generateStateKey_def)
  note T = C6_duplicate_name[where ?a1.0 = 0 and ?S0.0 = ex_system and ?S1.0 = ?S1 and ?a2.0 = 1
      and d = ex_item and p = ex_item and k = "''sensor_e1''" and B = B_throwing
      and S = ?S1 and a = 1]
  have d: "addAdapter 1 ?S1 = (Some (AdapterAlreadyExists (a_name (objs ex_system 0))), ?S1)"
    and r: "Map_get (adapters (layer (snd (addAdapter 1 ?S1)))) (a_name (objs ex_system 0)) = Some 0"
    and g: "DataState_get (dataState (layer (snd (emitData B_throwing 0 ex_item (snd (addAdapter 1 ?S1))))))
              ''sensor_e1'' = DataItem_val ex_item"
    using T ok nm(1) c by blast+
  have d1: "fst (addAdapter 1 ?S1) = Some (AdapterAlreadyExists ''sensor'')"
    and d2: "snd (addAdapter 1 ?S1) = ?S1"
    unfolding d by (simp_all add: nm(2))
  have r': "Map_get (adapters (layer (snd (addAdapter 1 ?S1)))) ''sensor'' = Some 0"
    using r by (simp only: nm(2))
  have has: "Map_has (adapters (layer ?S1)) (a_name (objs ?S1 1))"
    by (simp add: ex_system_add Map_has_def)
  have again: "addAdapter 1 ?S1 = (Some (AdapterAlreadyExists (a_name (objs ?S1 1))), ?S1)"
    using T has by blast
  have "fst (addAdapter 0 ex_system) = None" by (simp add: ex_system_add)
  with d1 d2 r' g has again show ?thesis by blast
qed

lemma ds_logs_failure:
  assumes "distinct (map fst sched)" "(i, Rejects e) \<in> set sched" "i \<in> set p"
  shows "ConsoleError (FailedToDisconnect (nm ! i)) \<in> set (snd (disconnect_settles lg nm sched (p, tr)))"
  using assms
proof (induction sched arbitrary: p tr)
  case Nil
  then show ?case by simp
next
  case (Cons x sched)
  obtain j out where x: "x = (j, out)" by (cases x)
  show ?case
  proof (cases "j = i")
    case True
    with Cons.prems(1,2) x have out: "out = Rejects e"
      by (auto simp: image_iff)
    obtain new where "snd (disconnect_settles lg nm sched
          (removeAll i p, tr @ [ConsoleError (FailedToDisconnect (nm ! i))]))
        = (tr @ [ConsoleError (FailedToDisconnect (nm ! i))]) @ new"
      using ds_trace by blast
    then show ?thesis using Cons.prems(3) by (simp add: x True out)
  next
    case False
    with Cons.prems(2) x have mem: "(i, Rejects e) \<in> set sched" by auto
    from Cons.prems(1) have d: "distinct (map fst sched)" by simp
    have "i \<in> set (removeAll j p)" using Cons.prems(3) False by simp
    from Cons.IH[OF d mem this] Cons.IH[OF d mem Cons.prems(3)]
    show ?thesis by (cases out) (simp_all add: x)
  qed
qed

lemma cs_logs_failure:
  assumes "distinct (map fst sched)" "(i, Rejects e) \<in> set sched" "i \<in> set p"
  shows "ConsoleError (FailedToConnect (nm ! i)) \<in> set (snd (snd (connect_settles lg nm sched (p, f, tr))))"
  using assms
proof (induction sched arbitrary: p f tr)
  case Nil
  then show ?case by simp
next
  case (Cons x sched)
  obtain j out where x: "x = (j, out)" by (cases x)
  show ?case
  proof (cases "j = i")
    case True
    with Cons.prems(1,2) x have out: "out = Rejects e"
      by (auto simp: image_iff)
    obtain new where "snd (snd (connect_settles lg nm sched
          (removeAll i p, (case f of None \<Rightarrow> Some e | Some e' \<Rightarrow> Some e'),
           tr @ [ConsoleError (FailedToConnect (nm ! i))])))
        = (tr @ [ConsoleError (FailedToConnect (nm ! i))]) @ new"
      using cs_trace by blast
    then show ?thesis using Cons.prems(3) by (simp add: x True out)
  next
    case False
    with Cons.prems(2) x have mem: "(i, Rejects e) \<in> set sched" by auto
    from Cons.prems(1) have d: "distinct (map fst sched)" by simp
    have "i \<in> set (removeAll j p)" using Cons.prems(3) False by simp
    from Cons.IH[OF d mem this] Cons.IH[OF d mem Cons.prems(3)]
    show ?thesis by (cases out) (simp_all add: x)
  qed
qed

lemma disconnectAll_logs_failure:
  assumes "distinct (map fst sched)" "(i, Rejects e) \<in> set sched" "i < length (adapters L)"
  shows "ConsoleError (FailedToDisconnect (fst (adapters L ! i)))
           \<in> set (emitted (dataState L) (dataState (snd (disconnectAll sched L))))"
proof -
  have "i \<in> set [0..<length (adapters L)]" using assms(3) by simp
  from ds_logs_failure[OF assms(1,2) this, where nm = "map fst (adapters L)"
      and lg = "enableLogging L"
      and tr = "map (\<lambda>(name, adapter). DisconnectCalled adapter) (adapters L)"] assms(3)
  show ?thesis
    by (simp add: disconnectAll_observed emitted_def)
qed

lemma connectAll_logs_failure:
  assumes "distinct (map fst sched)" "(i, Rejects e) \<in> set sched" "i < length (adapters L)"
  shows "ConsoleError (FailedToConnect (fst (adapters L ! i)))
           \<in> set (emitted (dataState L) (dataState (snd (connectAll sched L))))"
proof -
  have "i \<in> set [0..<length (adapters L)]" using assms(3) by simp
  from cs_logs_failure[OF assms(1,2) this, where nm = "map fst (adapters L)"
      and lg = "enableLogging L" and f = None
      and tr = "map (\<lambda>(name, adapter). ConnectCalled adapter) (adapters L)"] assms(3)
  show ?thesis
    by (simp add: connectAll_observed emitted_def)
qed

lemma connectAll_registry: "adapters (snd (connectAll sched L)) = adapters L"
  by (simp add: connectAll_def Let_def split: prod.split)

lemma disconnectAll_registry: "adapters (snd (disconnectAll sched L)) = adapters L"
  by (simp add: disconnectAll_def Let_def split: prod.split)

text \<open>
  Claim C9.  \<^verbatim>\<open>connectAll\<close> calls \<^verbatim>\<open>connect()\<close> of every registered adapter before
  any of them settles, and apart from that only writes to the console (so it calls no
  \<^verbatim>\<open>disconnect()\<close>); it is rejected by the first rejection, whatever the other
  promises do afterwards, and without a rejection it is fulfilled once all have settled.
  \<^verbatim>\<open>disconnectAll\<close> calls \<^verbatim>\<open>disconnect()\<close> of every registered adapter, is
  fulfilled once all have settled, however many were rejected, and is never rejected.
  When every promise settles at most once, each rejection is reported on the console
  under the name of its adapter.  Neither call changes the registry.
\<close>

theorem C9_connectAll_disconnectAll:
  "(\<exists>rest. emitted (dataState L) (dataState (snd (connectAll sched L))) =
       map (\<lambda>(name, adapter). ConnectCalled adapter) (adapters L) @ rest \<and> list_all is_console rest)
   \<and> (sched = pre @ (i, Rejects e) # post \<and> i < length (adapters L) \<and> i \<notin> fst ` set pre
        \<and> (\<forall>x\<in>set pre. snd x = Resolves) \<longrightarrow> fst (connectAll sched L) = Rejected e)
   \<and> ((\<forall>x\<in>set sched. snd x = Resolves) \<longrightarrow>
        fst (connectAll sched L) =
          (if {..<length (adapters L)} \<subseteq> fst ` set sched then Fulfilled else Pending))
   \<and> (\<exists>rest. emitted (dataState L) (dataState (snd (disconnectAll sched L))) =
       map (\<lambda>(name, adapter). DisconnectCalled adapter) (adapters L) @ rest \<and> list_all is_console rest)
   \<and> fst (disconnectAll sched L) =
        (if {..<length (adapters L)} \<subseteq> fst ` set sched then Fulfilled else Pending)
   \<and> fst (disconnectAll sched L) \<noteq> Rejected e'
   \<and> (distinct (map fst sched) \<and> (j, Rejects e'') \<in> set sched \<and> j < length (adapters L) \<longrightarrow>
        ConsoleError (FailedToConnect (fst (adapters L ! j)))
          \<in> set (emitted (dataState L) (dataState (snd (connectAll sched L))))
      \<and> ConsoleError (FailedToDisconnect (fst (adapters L ! j)))
          \<in> set (emitted (dataState L) (dataState (snd (disconnectAll sched L)))))
   \<and> adapters (snd (connectAll sched L)) = adapters L
   \<and> adapters (snd (disconnectAll sched L)) = adapters L"
  using connectAll_calls[of L sched] connectAll_fail_fast[of sched pre i e post L]
    connectAll_all_resolve[of sched L] disconnectAll_calls[of L sched]
    disconnectAll_fulfils[of sched L] disconnectAll_never_rejects[of sched L e']
    connectAll_logs_failure[of sched j e'' L] disconnectAll_logs_failure[of sched j e'' L]
    connectAll_registry[of sched L] disconnectAll_registry[of sched L]
  by blast

theorem C9_connectAll_disconnectAll_witness:
  "fst (connectAll [(0, Resolves), (1, Rejects (Thrown (Str ''down'')))] ex_registry)
     = Rejected (Thrown (Str ''down''))
   \<and> observed (dataState (snd (connectAll [(0, Resolves), (1, Rejects (Thrown (Str ''down'')))] ex_registry)))
     = [ConnectCalled 0, ConnectCalled 1, ConnectCalled 2, ConsoleLog (ConnectedAdapter ''a''),
        ConsoleError (FailedToConnect ''b'')]
   \<and> fst (connectAll [(2, Resolves), (0, Resolves), (1, Resolves)] ex_registry) = Fulfilled
   \<and> fst (disconnectAll [(1, Rejects (Thrown (Str ''x''))), (0, Rejects (Thrown (Str ''y''))), (2, Resolves)]
        ex_registry) = Fulfilled
   \<and> ConsoleError (FailedToDisconnect ''b'') \<in> set (emitted (dataState ex_registry) (dataState (snd
        (disconnectAll [(1, Rejects (Thrown (Str ''x''))), (0, Rejects (Thrown (Str ''y''))), (2, Resolves)]
           ex_registry))))"
proof -
  have n: "length (adapters ex_registry) = 3" "{..<(3::nat)} = {0, 1, 2}"
    by (auto simp: ex_registry_def DataAdapterLayer_new_def)
  have o: "observed (dataState (snd (connectAll [(0, Resolves), (1, Rejects (Thrown (Str ''down'')))] ex_registry)))
     = [ConnectCalled 0, ConnectCalled 1, ConnectCalled 2, ConsoleLog (ConnectedAdapter ''a''),
        ConsoleError (FailedToConnect ''b'')]"
    by (simp add: connectAll_def ex_registry_def DataAdapterLayer_new_def DataState_new_def
        console_def upt_rec[of 0] upt_rec[of 1] upt_rec[of 2] upt_rec[of 3])
  from C9_connectAll_disconnectAll[where L = ex_registry
      and sched = "[(0, Resolves), (1, Rejects (Thrown (Str ''down'')))]"
      and pre = "[(0, Resolves)]" and i = 1 and e = "Thrown (Str ''down'')" and post = "[]"]
  have a: "fst (connectAll [(0, Resolves), (1, Rejects (Thrown (Str ''down'')))] ex_registry)
     = Rejected (Thrown (Str ''down''))"
    by (simp add: n)
  from C9_connectAll_disconnectAll[where L = ex_registry
      and sched = "[(2, Resolves), (0, Resolves), (1, Resolves)]"]
  have b: "fst (connectAll [(2, Resolves), (0, Resolves), (1, Resolves)] ex_registry) = Fulfilled"
    by (simp add: n)
  from C9_connectAll_disconnectAll[where L = ex_registry
      and sched = "[(1, Rejects (Thrown (Str ''x''))), (0, Rejects (Thrown (Str ''y''))), (2, Resolves)]"]
  have c: "fst (disconnectAll [(1, Rejects (Thrown (Str ''x''))), (0, Rejects (Thrown (Str ''y''))), (2, Resolves)]
        ex_registry) = Fulfilled"
    by (simp add: n)
  have nb: "fst (adapters ex_registry ! 1) = ''b''"
    by (simp add: ex_registry_def DataAdapterLayer_new_def)
  note T = C9_connectAll_disconnectAll[where L = ex_registry
      and sched = "[(1, Rejects (Thrown (Str ''x''))), (0, Rejects (Thrown (Str ''y''))), (2, Resolves)]"
      and j = 1 and e'' = "Thrown (Str ''x'')" and pre = "[]" and i = 1 and e = "Thrown (Str ''x'')"
      and post = "[(0, Rejects (Thrown (Str ''y''))), (2, Resolves)]" and e' = "Thrown (Str ''x'')"]
  have hyp: "distinct (map fst [(1::nat, Rejects (Thrown (Str ''x''))), (0, Rejects (Thrown (Str ''y''))),
                  (2, Resolves)])"
    "(1, Rejects (Thrown (Str ''x''))) \<in> set [(1::nat, Rejects (Thrown (Str ''x''))),
        (0, Rejects (Thrown (Str ''y''))), (2, Resolves)]"
    "1 < length (adapters ex_registry)"
    by (simp_all add: n)
  have "ConsoleError (FailedToDisconnect (fst (adapters ex_registry ! 1))) \<in> set (emitted
        (dataState ex_registry) (dataState (snd
        (disconnectAll [(1, Rejects (Thrown (Str ''x''))), (0, Rejects (Thrown (Str ''y''))), (2, Resolves)]
           ex_registry))))"
    using T hyp by blast
  then have d: "ConsoleError (FailedToDisconnect ''b'') \<in> set (emitted (dataState ex_registry) (dataState (snd
        (disconnectAll [(1, Rejects (Thrown (Str ''x''))), (0, Rejects (Thrown (Str ''y''))), (2, Resolves)]
           ex_registry))))"
    by (simp only: nb)
  from a b c d o show ?thesis by simp
qed

section \<open>Properties of the push adapters\<close>

lemma sse_step_bound:
  assumes "sse_no_open ev"
    and "sse_timeouts s = base @ replicate (sse_reconnectAttempts s) (sse_reconnectInterval opts)"
    and "sse_reconnectAttempts s \<le> nat (sse_maxReconnectAttempts opts)"
    and "sse_reconnects s + (if sse_reconnectTimer s = None then 0 else 1) \<le> r0 + sse_reconnectAttempts s"
  shows "sse_timeouts (sse_step opts ev s)
           = base @ replicate (sse_reconnectAttempts (sse_step opts ev s)) (sse_reconnectInterval opts)
       \<and> sse_reconnectAttempts (sse_step opts ev s) \<le> nat (sse_maxReconnectAttempts opts)
       \<and> sse_reconnects (sse_step opts ev s)
            + (if sse_reconnectTimer (sse_step opts ev s) = None then 0 else 1)
            \<le> r0 + sse_reconnectAttempts (sse_step opts ev s)"
proof (cases ev)
  case SseConnect
  with assms show ?thesis by (auto simp: SSE_connect_def)
next
  case SseDisconnect
  with assms show ?thesis by (auto simp: SSE_disconnect_def Let_def split: option.splits if_splits)
next
  case (SseOpen es)
  with assms show ?thesis by simp
next
  case (SseError es)
  with assms show ?thesis
    by (auto simp: SSE_onerror_def SSE_scheduleReconnect_def Let_def replicate_append_same
        split: if_splits)
next
  case (SseMessage es msg)
  with assms show ?thesis by (auto simp: SSE_onmessage_def)
next
  case SseTimer
  with assms show ?thesis
    by (auto simp: SSE_reconnect_def SSE_connect_def SSE_disconnect_def Let_def
        split: option.splits if_splits)
qed

lemma sse_run_bound:
  assumes "list_all sse_no_open evs"
    and "sse_timeouts s = base @ replicate (sse_reconnectAttempts s) (sse_reconnectInterval opts)"
    and "sse_reconnectAttempts s \<le> nat (sse_maxReconnectAttempts opts)"
    and "sse_reconnects s + (if sse_reconnectTimer s = None then 0 else 1) \<le> r0 + sse_reconnectAttempts s"
  shows "sse_timeouts (sse_run opts evs s)
           = base @ replicate (sse_reconnectAttempts (sse_run opts evs s)) (sse_reconnectInterval opts)
       \<and> sse_reconnectAttempts (sse_run opts evs s) \<le> nat (sse_maxReconnectAttempts opts)
       \<and> sse_reconnects (sse_run opts evs s)
            + (if sse_reconnectTimer (sse_run opts evs s) = None then 0 else 1)
            \<le> r0 + sse_reconnectAttempts (sse_run opts evs s)"
  using assms
proof (induction evs arbitrary: s)
  case Nil
  then show ?case by (simp add: sse_run_def)
next
  case (Cons ev evs)
  from Cons.prems(1) have ev: "sse_no_open ev" and evs: "list_all sse_no_open evs" by simp_all
  note st = sse_step_bound[OF ev Cons.prems(2) Cons.prems(3) Cons.prems(4)]
  from Cons.IH[OF evs, of "sse_step opts ev s"] st
  show ?case by (simp add: sse_run_def)
qed

lemma sse_step_exhausted:
  assumes "sse_automatic ev"
    and "sse_maxReconnectAttempts opts \<le> int (sse_reconnectAttempts s)"
    and "sse_reconnectTimer s = None" and "\<not> sse_connected s"
  shows "sse_maxReconnectAttempts opts \<le> int (sse_reconnectAttempts (sse_step opts ev s))
       \<and> sse_reconnectTimer (sse_step opts ev s) = None \<and> \<not> sse_connected (sse_step opts ev s)
       \<and> sse_timeouts (sse_step opts ev s) = sse_timeouts s
       \<and> sse_reconnects (sse_step opts ev s) = sse_reconnects s
       \<and> sse_created (sse_step opts ev s) = sse_created s"
proof (cases ev)
  case SseConnect
  with assms show ?thesis by simp
next
  case SseDisconnect
  with assms show ?thesis by (auto simp: SSE_disconnect_def Let_def split: option.splits)
next
  case (SseOpen es)
  with assms show ?thesis by simp
next
  case (SseError es)
  with assms show ?thesis by (auto simp: SSE_onerror_def Let_def)
next
  case (SseMessage es msg)
  with assms show ?thesis by (auto simp: SSE_onmessage_def)
next
  case SseTimer
  with assms show ?thesis by simp
qed

lemma sse_run_exhausted:
  assumes "list_all sse_automatic evs"
    and "sse_maxReconnectAttempts opts \<le> int (sse_reconnectAttempts s)"
    and "sse_reconnectTimer s = None" and "\<not> sse_connected s"
  shows "\<not> sse_connected (sse_run opts evs s) \<and> sse_reconnectTimer (sse_run opts evs s) = None
       \<and> sse_timeouts (sse_run opts evs s) = sse_timeouts s
       \<and> sse_reconnects (sse_run opts evs s) = sse_reconnects s
       \<and> sse_created (sse_run opts evs s) = sse_created s"
  using assms
proof (induction evs arbitrary: s)
  case Nil
  then show ?case by (simp add: sse_run_def)
next
  case (Cons ev evs)
  from Cons.prems(1) have ev: "sse_automatic ev" and evs: "list_all sse_automatic evs" by simp_all
  note st = sse_step_exhausted[OF ev Cons.prems(2) Cons.prems(3) Cons.prems(4)]
  from st have a: "sse_maxReconnectAttempts opts \<le> int (sse_reconnectAttempts (sse_step opts ev s))"
    and b: "sse_reconnectTimer (sse_step opts ev s) = None"
    and c: "\<not> sse_connected (sse_step opts ev s)" by simp_all
  from Cons.IH[OF evs a b c] st show ?case by (simp add: sse_run_def)
qed

lemma sse_resume:
  assumes "\<not> sse_connected s"
  shows "sse_created (sse_step opts SseConnect s) = Suc (sse_created s)
       \<and> sse_eventSource (sse_step opts SseConnect s) = Some (sse_created s)
       \<and> sse_connected (sse_step opts (SseOpen (sse_created s)) (sse_step opts SseConnect s))
       \<and> sse_reconnectAttempts (sse_step opts (SseOpen (sse_created s)) (sse_step opts SseConnect s)) = 0"
  using assms by (simp add: SSE_connect_def SSE_onopen_def)

lemma ws_step_bound:
  assumes "ws_no_open ev"
    and "ws_timeouts s = base @ replicate (ws_reconnectAttempts s) (ws_reconnectInterval opts)"
    and "ws_reconnectAttempts s \<le> nat (ws_maxReconnectAttempts opts)"
    and "ws_reconnects s + (if ws_reconnectTimer s = None then 0 else 1) \<le> r0 + ws_reconnectAttempts s"
  shows "ws_timeouts (ws_step opts ev s)
           = base @ replicate (ws_reconnectAttempts (ws_step opts ev s)) (ws_reconnectInterval opts)
       \<and> ws_reconnectAttempts (ws_step opts ev s) \<le> nat (ws_maxReconnectAttempts opts)
       \<and> ws_reconnects (ws_step opts ev s)
            + (if ws_reconnectTimer (ws_step opts ev s) = None then 0 else 1)
            \<le> r0 + ws_reconnectAttempts (ws_step opts ev s)"
proof (cases ev)
  case WsConnect
  with assms show ?thesis by (auto simp: WS_connect_def)
next
  case WsDisconnect
  with assms show ?thesis
    by (auto simp: WS_disconnect_def WS_stopPing_def ws_close_def Let_def split: option.splits if_splits)
next
  case (WsOpen w)
  with assms show ?thesis by simp
next
  case (WsMessage w msg)
  with assms show ?thesis by (auto simp: WS_onmessage_def)
next
  case (WsError w)
  with assms show ?thesis by simp
next
  case (WsClose w wasClean)
  with assms show ?thesis
    by (auto simp: WS_onclose_def WS_scheduleReconnect_def WS_stopPing_def Let_def
        replicate_append_same split: if_splits)
next
  case WsReconnectTimer
  with assms show ?thesis
    by (auto simp: WS_reconnect_def WS_connect_def WS_disconnect_def WS_stopPing_def ws_close_def
        Let_def split: option.splits if_splits)
next
  case WsPingTimer
  with assms show ?thesis by (auto simp: WS_ping_def split: option.splits)
next
  case WsPongTimer
  with assms show ?thesis by (auto simp: WS_pongTimeout_def ws_close_def split: option.splits)
qed

lemma ws_run_bound:
  assumes "list_all ws_no_open evs"
    and "ws_timeouts s = base @ replicate (ws_reconnectAttempts s) (ws_reconnectInterval opts)"
    and "ws_reconnectAttempts s \<le> nat (ws_maxReconnectAttempts opts)"
    and "ws_reconnects s + (if ws_reconnectTimer s = None then 0 else 1) \<le> r0 + ws_reconnectAttempts s"
  shows "ws_timeouts (ws_run opts evs s)
           = base @ replicate (ws_reconnectAttempts (ws_run opts evs s)) (ws_reconnectInterval opts)
       \<and> ws_reconnectAttempts (ws_run opts evs s) \<le> nat (ws_maxReconnectAttempts opts)
       \<and> ws_reconnects (ws_run opts evs s)
            + (if ws_reconnectTimer (ws_run opts evs s) = None then 0 else 1)
            \<le> r0 + ws_reconnectAttempts (ws_run opts evs s)"
  using assms
proof (induction evs arbitrary: s)
  case Nil
  then show ?case by (simp add: ws_run_def)
next
  case (Cons ev evs)
  from Cons.prems(1) have ev: "ws_no_open ev" and evs: "list_all ws_no_open evs" by simp_all
  note st = ws_step_bound[OF ev Cons.prems(2) Cons.prems(3) Cons.prems(4)]
  from Cons.IH[OF evs, of "ws_step opts ev s"] st
  show ?case by (simp add: ws_run_def)
qed

lemma ws_step_exhausted:
  assumes "ws_automatic ev"
    and "ws_maxReconnectAttempts opts \<le> int (ws_reconnectAttempts s)"
    and "ws_reconnectTimer s = None" and "\<not> ws_connected s"
  shows "ws_maxReconnectAttempts opts \<le> int (ws_reconnectAttempts (ws_step opts ev s))
       \<and> ws_reconnectTimer (ws_step opts ev s) = None \<and> \<not> ws_connected (ws_step opts ev s)
       \<and> ws_timeouts (ws_step opts ev s) = ws_timeouts s
       \<and> ws_reconnects (ws_step opts ev s) = ws_reconnects s
       \<and> length (ws_sockets (ws_step opts ev s)) = length (ws_sockets s)"
proof (cases ev)
  case WsConnect
  with assms show ?thesis by simp
next
  case WsDisconnect
  with assms show ?thesis
    by (auto simp: WS_disconnect_def WS_stopPing_def ws_close_def Let_def split: option.splits)
next
  case (WsOpen w)
  with assms show ?thesis by simp
next
  case (WsMessage w msg)
  with assms show ?thesis by (auto simp: WS_onmessage_def)
next
  case (WsError w)
  with assms show ?thesis by simp
next
  case (WsClose w wasClean)
  with assms show ?thesis by (auto simp: WS_onclose_def WS_stopPing_def Let_def)
next
  case WsReconnectTimer
  with assms show ?thesis by simp
next
  case WsPingTimer
  with assms show ?thesis by (auto simp: WS_ping_def split: option.splits)
next
  case WsPongTimer
  with assms show ?thesis by (auto simp: WS_pongTimeout_def ws_close_def split: option.splits)
qed

lemma ws_run_exhausted:
  assumes "list_all ws_automatic evs"
    and "ws_maxReconnectAttempts opts \<le> int (ws_reconnectAttempts s)"
    and "ws_reconnectTimer s = None" and "\<not> ws_connected s"
  shows "\<not> ws_connected (ws_run opts evs s) \<and> ws_reconnectTimer (ws_run opts evs s) = None
       \<and> ws_timeouts (ws_run opts evs s) = ws_timeouts s
       \<and> ws_reconnects (ws_run opts evs s) = ws_reconnects s
       \<and> length (ws_sockets (ws_run opts evs s)) = length (ws_sockets s)"
  using assms
proof (induction evs arbitrary: s)
  case Nil
  then show ?case by (simp add: ws_run_def)
next
  case (Cons ev evs)
  from Cons.prems(1) have ev: "ws_automatic ev" and evs: "list_all ws_automatic evs" by simp_all
  note st = ws_step_exhausted[OF ev Cons.prems(2) Cons.prems(3) Cons.prems(4)]
  from st have a: "ws_maxReconnectAttempts opts \<le> int (ws_reconnectAttempts (ws_step opts ev s))"
    and b: "ws_reconnectTimer (ws_step opts ev s) = None"
    and c: "\<not> ws_connected (ws_step opts ev s)" by simp_all
  from Cons.IH[OF evs a b c] st show ?case by (simp add: ws_run_def)
qed

text \<open>
  Claim C7.  In a run of a push adapter that starts with the attempt counter at zero and
  no reconnect timer pending (as after a successful \<^verbatim>\<open>connect()\<close>) and in which no
  connection opens, \<^verbatim>\<open>scheduleReconnect\<close> sets at most \<^verbatim>\<open>maxReconnectAttempts\<close>
  timers, each with the delay \<^verbatim>\<open>reconnectInterval\<close>, and the timer callback runs at
  most as often.  Once the counter has reached the maximum, no timer is pending and the
  adapter is not connected, every further run without an open and without a call of
  \<^verbatim>\<open>connect()\<close> leaves it so: not connected, no timer, no new timer set, no reconnect
  made, no connection created.  This holds for the SSE and for the WebSocket adapter.
\<close>

theorem C7_reconnect_ceiling:
  "(list_all sse_no_open evs \<and> sse_reconnectAttempts s = 0 \<and> sse_reconnectTimer s = None \<longrightarrow>
      (\<exists>n. sse_timeouts (sse_run opts evs s) = sse_timeouts s @ replicate n (sse_reconnectInterval opts)
          \<and> int n \<le> max 0 (sse_maxReconnectAttempts opts)
          \<and> sse_reconnects (sse_run opts evs s) \<le> sse_reconnects s + n))
   \<and> (list_all sse_automatic evs \<and> sse_maxReconnectAttempts opts \<le> int (sse_reconnectAttempts t)
        \<and> sse_reconnectTimer t = None \<and> \<not> sse_connected t \<longrightarrow>
        \<not> sse_connected (sse_run opts evs t) \<and> sse_reconnectTimer (sse_run opts evs t) = None
        \<and> sse_timeouts (sse_run opts evs t) = sse_timeouts t
        \<and> sse_reconnects (sse_run opts evs t) = sse_reconnects t
        \<and> sse_created (sse_run opts evs t) = sse_created t)
   \<and> (list_all ws_no_open wevs \<and> ws_reconnectAttempts w = 0 \<and> ws_reconnectTimer w = None \<longrightarrow>
      (\<exists>n. ws_timeouts (ws_run wopts wevs w) = ws_timeouts w @ replicate n (ws_reconnectInterval wopts)
          \<and> int n \<le> max 0 (ws_maxReconnectAttempts wopts)
          \<and> ws_reconnects (ws_run wopts wevs w) \<le> ws_reconnects w + n))
   \<and> (list_all ws_automatic wevs \<and> ws_maxReconnectAttempts wopts \<le> int (ws_reconnectAttempts u)
        \<and> ws_reconnectTimer u = None \<and> \<not> ws_connected u \<longrightarrow>
        \<not> ws_connected (ws_run wopts wevs u) \<and> ws_reconnectTimer (ws_run wopts wevs u) = None
        \<and> ws_timeouts (ws_run wopts wevs u) = ws_timeouts u
        \<and> ws_reconnects (ws_run wopts wevs u) = ws_reconnects u
        \<and> length (ws_sockets (ws_run wopts wevs u)) = length (ws_sockets u))"
proof -
  have a: "\<exists>n. sse_timeouts (sse_run opts evs s) = sse_timeouts s @ replicate n (sse_reconnectInterval opts)
          \<and> int n \<le> max 0 (sse_maxReconnectAttempts opts)
          \<and> sse_reconnects (sse_run opts evs s) \<le> sse_reconnects s + n"
    if h: "list_all sse_no_open evs" "sse_reconnectAttempts s = 0" "sse_reconnectTimer s = None"
  proof -
    from sse_run_bound[OF h(1), of s "sse_timeouts s" opts "sse_reconnects s"] h(2,3)
    have "sse_timeouts (sse_run opts evs s) = sse_timeouts s
              @ replicate (sse_reconnectAttempts (sse_run opts evs s)) (sse_reconnectInterval opts)"
      and "sse_reconnectAttempts (sse_run opts evs s) \<le> nat (sse_maxReconnectAttempts opts)"
      and "sse_reconnects (sse_run opts evs s)
            + (if sse_reconnectTimer (sse_run opts evs s) = None then 0 else 1)
            \<le> sse_reconnects s + sse_reconnectAttempts (sse_run opts evs s)"
      by simp_all
    then show ?thesis
      by (intro exI[of _ "sse_reconnectAttempts (sse_run opts evs s)"]) (auto split: if_splits)
  qed
  have b: "\<exists>n. ws_timeouts (ws_run wopts wevs w) = ws_timeouts w @ replicate n (ws_reconnectInterval wopts)
          \<and> int n \<le> max 0 (ws_maxReconnectAttempts wopts)
          \<and> ws_reconnects (ws_run wopts wevs w) \<le> ws_reconnects w + n"
    if h: "list_all ws_no_open wevs" "ws_reconnectAttempts w = 0" "ws_reconnectTimer w = None"
  proof -
    from ws_run_bound[OF h(1), of w "ws_timeouts w" wopts "ws_reconnects w"] h(2,3)
    have "ws_timeouts (ws_run wopts wevs w) = ws_timeouts w
              @ replicate (ws_reconnectAttempts (ws_run wopts wevs w)) (ws_reconnectInterval wopts)"
      and "ws_reconnectAttempts (ws_run wopts wevs w) \<le> nat (ws_maxReconnectAttempts wopts)"
      and "ws_reconnects (ws_run wopts wevs w)
            + (if ws_reconnectTimer (ws_run wopts wevs w) = None then 0 else 1)
            \<le> ws_reconnects w + ws_reconnectAttempts (ws_run wopts wevs w)"
      by simp_all
    then show ?thesis
      by (intro exI[of _ "ws_reconnectAttempts (ws_run wopts wevs w)"]) (auto split: if_splits)
  qed
  show ?thesis
    using a b sse_run_exhausted[of evs opts t] ws_run_exhausted[of wevs wopts u]
    by blast
qed

lemma sse_run3:
  "sse_run sse_opts3 [SseError 0, SseTimer, SseError 1, SseTimer, SseError 2, SseTimer, SseError 3]
     sse_connected0 =
   \<lparr> sse_connected = False, sse_eventSource = Some 3, sse_reconnectAttempts = 3,
     sse_reconnectTimer = None, sse_live = [3], sse_created = 4,
     sse_timeouts = [5000, 5000, 5000], sse_reconnects = 3, sse_emitted = [] \<rparr>"
  by (simp add: sse_connected0_def sse_run_def sse_opts3_def SSE_new_def SSE_connect_def
      SSE_onopen_def SSE_onerror_def SSE_scheduleReconnect_def SSE_reconnect_def
      SSE_disconnect_def Let_def)

lemma ws_run3:
  "ws_run ws_opts3 [WsClose 0 False, WsReconnectTimer, WsError 1, WsClose 1 False, WsReconnectTimer,
      WsError 2, WsClose 2 False, WsReconnectTimer, WsError 3, WsClose 3 False]
     ws_connected0 =
   \<lparr> ws_connected = False, ws_ws = Some 3, ws_reconnectAttempts = 3,
     ws_reconnectTimer = None, ws_pingTimer = False, ws_pongTimer = False,
     ws_sockets = [CLOSED, CLOSED, CLOSED, CLOSED],
     ws_timeouts = [5000, 5000, 5000], ws_reconnects = 3, ws_emitted = [] \<rparr>"
  by (simp add: ws_connected0_def ws_run_def ws_opts3_def WS_new_def WS_connect_def
      WS_onopen_def WS_startPing_def WS_onclose_def WS_stopPing_def WS_scheduleReconnect_def
      WS_reconnect_def WS_disconnect_def ws_readyState_def ws_close_def Let_def)

theorem C7_reconnect_ceiling_witness:
  "sse_reconnectAttempts sse_connected0 = 0 \<and> sse_reconnectTimer sse_connected0 = None
   \<and> sse_connected sse_connected0
   \<and> sse_timeouts (sse_run sse_opts3
        [SseError 0, SseTimer, SseError 1, SseTimer, SseError 2, SseTimer, SseError 3] sse_connected0)
       = [5000, 5000, 5000]
   \<and> sse_reconnects (sse_run sse_opts3
        [SseError 0, SseTimer, SseError 1, SseTimer, SseError 2, SseTimer, SseError 3] sse_connected0) = 3
   \<and> (\<exists>n. sse_timeouts (sse_run sse_opts3
        [SseError 0, SseTimer, SseError 1, SseTimer, SseError 2, SseTimer, SseError 3] sse_connected0)
          = sse_timeouts sse_connected0 @ replicate n (sse_reconnectInterval sse_opts3)
        \<and> int n \<le> max 0 (sse_maxReconnectAttempts sse_opts3))
   \<and> (\<exists>n. ws_timeouts (ws_run ws_opts3
        [WsClose 0 False, WsReconnectTimer, WsError 1, WsClose 1 False, WsReconnectTimer,
         WsError 2, WsClose 2 False, WsReconnectTimer, WsError 3, WsClose 3 False] ws_connected0)
          = ws_timeouts ws_connected0 @ replicate n (ws_reconnectInterval ws_opts3)
        \<and> int n \<le> max 0 (ws_maxReconnectAttempts ws_opts3))
   \<and> \<not> sse_connected (sse_run sse_opts3 [SseError 3, SseTimer, SseError 3, SseMessage 3 ''x'']
        (sse_run sse_opts3
          [SseError 0, SseTimer, SseError 1, SseTimer, SseError 2, SseTimer, SseError 3] sse_connected0))
   \<and> sse_reconnects (sse_run sse_opts3 [SseError 3, SseTimer, SseError 3, SseMessage 3 ''x'']
        (sse_run sse_opts3
          [SseError 0, SseTimer, SseError 1, SseTimer, SseError 2, SseTimer, SseError 3] sse_connected0)) = 3
   \<and> ws_timeouts (ws_run ws_opts3
        [WsClose 0 False, WsReconnectTimer, WsError 1, WsClose 1 False, WsReconnectTimer,
         WsError 2, WsClose 2 False, WsReconnectTimer, WsError 3, WsClose 3 False] ws_connected0)
       = [5000, 5000, 5000]
   \<and> \<not> ws_connected (ws_run ws_opts3 [WsReconnectTimer, WsError 3, WsPingTimer]
        (ws_run ws_opts3
          [WsClose 0 False, WsReconnectTimer, WsError 1, WsClose 1 False, WsReconnectTimer,
           WsError 2, WsClose 2 False, WsReconnectTimer, WsError 3, WsClose 3 False] ws_connected0))"
proof -
  let ?evs = "[SseError 0, SseTimer, SseError 1, SseTimer, SseError 2, SseTimer, SseError 3]"
  let ?t = "sse_run sse_opts3 ?evs sse_connected0"
  let ?more = "[SseError 3, SseTimer, SseError 3, SseMessage 3 ''x'']"
  let ?wevs = "[WsClose 0 False, WsReconnectTimer, WsError 1, WsClose 1 False, WsReconnectTimer,
         WsError 2, WsClose 2 False, WsReconnectTimer, WsError 3, WsClose 3 False]"
  let ?u = "ws_run ws_opts3 ?wevs ws_connected0"
  let ?wmore = "[WsReconnectTimer, WsError 3, WsPingTimer]"
  have s0: "sse_reconnectAttempts sse_connected0 = 0" "sse_reconnectTimer sse_connected0 = None"
    "sse_connected sse_connected0"
    by (simp_all add: sse_connected0_def sse_run_def SSE_new_def SSE_connect_def SSE_onopen_def)
  have w0: "ws_reconnectAttempts ws_connected0 = 0" "ws_reconnectTimer ws_connected0 = None"
    by (simp_all add: ws_connected0_def ws_run_def WS_new_def WS_connect_def WS_onopen_def
        WS_startPing_def ws_readyState_def)
  have e1: "list_all sse_no_open ?evs" "list_all sse_automatic ?more"
    "list_all ws_no_open ?wevs" "list_all ws_automatic ?wmore" by simp_all
  have t: "sse_maxReconnectAttempts sse_opts3 \<le> int (sse_reconnectAttempts ?t)"
    "sse_reconnectTimer ?t = None" "\<not> sse_connected ?t"
    "sse_timeouts ?t = [5000, 5000, 5000]" "sse_reconnects ?t = 3"
    unfolding sse_run3 by (simp_all add: sse_opts3_def)
  have u: "ws_maxReconnectAttempts ws_opts3 \<le> int (ws_reconnectAttempts ?u)"
    "ws_reconnectTimer ?u = None" "\<not> ws_connected ?u" "ws_timeouts ?u = [5000, 5000, 5000]"
    unfolding ws_run3 by (simp_all add: ws_opts3_def)
  note T = C7_reconnect_ceiling[where evs = ?more and opts = sse_opts3 and t = ?t
      and s = ?t and wevs = ?wmore and wopts = ws_opts3 and u = ?u and w = ?u]
  have r1: "\<not> sse_connected (sse_run sse_opts3 ?more ?t)"
    and r2: "sse_reconnects (sse_run sse_opts3 ?more ?t) = sse_reconnects ?t"
    using T e1(2) t(1,2,3) by blast+
  have r3: "\<not> ws_connected (ws_run ws_opts3 ?wmore ?u)"
    using T e1(4) u(1,2,3) by blast
  note T2 = C7_reconnect_ceiling[where evs = ?evs and opts = sse_opts3 and s = sse_connected0
      and t = ?t and wevs = ?wevs and wopts = ws_opts3 and w = ws_connected0 and u = ?u]
  have b1: "\<exists>n. sse_timeouts ?t = sse_timeouts sse_connected0 @ replicate n (sse_reconnectInterval sse_opts3)
          \<and> int n \<le> max 0 (sse_maxReconnectAttempts sse_opts3)"
    using T2 e1(1) s0(1,2) by blast
  have b2: "\<exists>n. ws_timeouts ?u = ws_timeouts ws_connected0 @ replicate n (ws_reconnectInterval ws_opts3)
          \<and> int n \<le> max 0 (ws_maxReconnectAttempts ws_opts3)"
    using T2 e1(3) w0(1,2) by blast
  have r2': "sse_reconnects (sse_run sse_opts3 ?more ?t) = 3" using r2 t(5) by simp
  from r1 r2' r3 s0 t(4,5) u(4) b1 b2 show ?thesis by blast
qed

section \<open>A run of the stream adapter\<close>

lemma stream_disconnected_eq:
  "stream_disconnected = \<lparr> st_connected = False, st_reader = None, st_abortController = None,
     st_tasks = [], st_started = 1, st_retryTimers = [1], st_timeoutTimers = [],
     st_aborted = [], st_cancelled = [], st_cancelling = False, st_emitted = [''a''] \<rparr>"
  by (simp add: stream_disconnected_def stream_run_def stream_defaults_def Stream_new_def
      Stream_connect_def startStream_def stream_response_def stream_loop_def stream_chunk_def
      process_lines_def trim_def is_space_def stream_catch_def stream_finally_def
      Stream_disconnect_def Stream_disconnect_rest_def Let_def)

text \<open>
  Claim C8 and the code.  The retry timer of \<^verbatim>\<open>startStream\<close> is not kept anywhere, so
  \<^verbatim>\<open>disconnect()\<close> cannot clear it, and \<^verbatim>\<open>startStream\<close> does not look at
  \<^verbatim>\<open>this.connected\<close> when the timer calls it.  In the run above \<^verbatim>\<open>disconnect()\<close> has
  returned: the adapter is not connected, no call of \<^verbatim>\<open>startStream\<close> is suspended, one
  line has been emitted, and the retry timer is still pending.  When it elapses and the
  request succeeds, the adapter is connected again, without any call of \<^verbatim>\<open>connect()\<close>,
  and emits the next line.
\<close>

theorem C8_stream_retry_survives_disconnect:
  "\<not> st_connected stream_disconnected
   \<and> \<not> st_cancelling stream_disconnected
   \<and> st_tasks stream_disconnected = []
   \<and> st_emitted stream_disconnected = [''a'']
   \<and> st_retryTimers stream_disconnected = [1]
   \<and> st_connected (stream_run stream_defaults
        [StRetryTimer 1, StResponse 1 True True, StChunk 1 (''b'' @ [CHR 0x0A])] stream_disconnected)
   \<and> st_emitted (stream_run stream_defaults
        [StRetryTimer 1, StResponse 1 True True, StChunk 1 (''b'' @ [CHR 0x0A])] stream_disconnected)
       = [''a'', ''b'']"
  by (simp add: stream_disconnected_eq stream_run_def stream_defaults_def
      startStream_def stream_response_def stream_loop_def stream_chunk_def
      process_lines_def trim_def is_space_def Let_def)

end
